theory Spec2Isabelle
  imports Complex_Main "HOL-Library.Sublist"
begin

section \<open>JavaScript strings and the built-ins the poller uses\<close>

text \<open>
  A JavaScript string is a sequence of 16-bit code units. The model has a code unit as a
  natural number and a string as a list of them; \<open>js\<close> turns a literal of ASCII
  characters into the string of their codes.
\<close>

type_synonym code_unit = nat

type_synonym jsstring = "code_unit list"

definition js :: "string \<Rightarrow> jsstring" where
  "js s = map of_char s"

text \<open>
  The code units that \<^verbatim>\<open>String.prototype.trim\<close> removes and that the classes \<^verbatim>\<open>\s\<close> and
  \<^verbatim>\<open>\S\<close> of a regular expression tell apart: the white space and the line terminators
  of the language (TAB, LF, VT, FF, CR, SPACE, NBSP, U+1680, U+2000 to U+200A, U+2028,
  U+2029, U+202F, U+205F, U+3000 and U+FEFF).
\<close>

definition isWhiteSpace :: "code_unit \<Rightarrow> bool" where
  "isWhiteSpace c \<longleftrightarrow>
     c \<in> {0x09, 0x0A, 0x0B, 0x0C, 0x0D, 0x20, 0xA0, 0x1680, 0x2028, 0x2029, 0x202F,
          0x205F, 0x3000, 0xFEFF} \<or> (0x2000 \<le> c \<and> c \<le> 0x200A)"

text \<open>The class \<^verbatim>\<open>\d\<close> of a regular expression without the \<^verbatim>\<open>u\<close> flag: \<^verbatim>\<open>[0-9]\<close>.\<close>

definition isDigit :: "code_unit \<Rightarrow> bool" where
  "isDigit c \<longleftrightarrow> c \<in> set (js ''0123456789'')"

text \<open>\<^verbatim>\<open>s.trim()\<close>: white space removed at both ends.\<close>

definition trim :: "jsstring \<Rightarrow> jsstring" where
  "trim s = rev (dropWhile isWhiteSpace (rev (dropWhile isWhiteSpace s)))"

text \<open>
  \<^verbatim>\<open>s.indexOf(pat)\<close>: the position of the first occurrence of \<open>pat\<close> in \<open>s\<close>;
  \<open>None\<close> stands for \<^verbatim>\<open>-1\<close>.
\<close>

fun indexOf :: "jsstring \<Rightarrow> jsstring \<Rightarrow> nat option" where
  "indexOf [] pat = (if pat = [] then Some 0 else None)"
| "indexOf (c # cs) pat =
     (if prefix pat (c # cs) then Some 0 else map_option Suc (indexOf cs pat))"

text \<open>
  The value of a decimal numeral, most significant digit first. It is unbounded, as a
  JavaScript \<^verbatim>\<open>BigInt\<close> is.
\<close>

definition digitValue :: "code_unit \<Rightarrow> nat" where
  "digitValue c = c - 48"

definition decimal :: "jsstring \<Rightarrow> nat" where
  "decimal s = foldl (\<lambda>acc c. 10 * acc + digitValue c) 0 s"

text \<open>
  Exceptions are values. \<open>SyntaxError\<close> is what \<^verbatim>\<open>BigInt\<close> throws; \<open>Thrown\<close> is an
  exception raised by a collaborator (the feed parser, the translation provider, the
  chat platform, the subscription store), with its message.
\<close>

datatype exn = SyntaxError | Thrown string

text \<open>
  \<^verbatim>\<open>BigInt(s)\<close> on a string. The program only ever passes a capture of \<^verbatim>\<open>(\d+)\<close>; on a
  non-empty string of decimal digits the result is its value, and the model raises
  \<open>SyntaxError\<close> on every other string (the signs, radix prefixes and surrounding white
  space that \<^verbatim>\<open>BigInt\<close> also accepts never reach it here, see \<open>extract_is_numeral\<close>).
\<close>

definition BigInt :: "jsstring \<Rightarrow> exn + nat" where
  "BigInt s = (if s \<noteq> [] \<and> list_all isDigit s then Inr (decimal s) else Inl SyntaxError)"

section \<open>Feed items and the helpers of \<^verbatim>\<open>rss.js\<close>\<close>

text \<open>
  An item of a parsed feed. A field is \<open>None\<close> when the property is absent or is not a
  string.
\<close>

record item =
  link :: "jsstring option"
  title :: "jsstring option"
  isoDate :: "jsstring option"
  pubDate :: "jsstring option"

text \<open>\<^verbatim>\<open>extractOriginalText(item)\<close>, lines 59 to 70.\<close>

definition extractOriginalText :: "item \<Rightarrow> jsstring" where
  "extractOriginalText it =
     (let t = (case title it of Some s \<Rightarrow> trim s | None \<Rightarrow> [])
      in if t = [] then []
         else case indexOf t (js ''): '') of
                Some idx \<Rightarrow> trim (drop (idx + 3) t)
              | None \<Rightarrow>
                  (case indexOf t (js '': '') of
                     Some idx2 \<Rightarrow> trim (drop (idx2 + 2) t)
                   | None \<Rightarrow> t))"

text \<open>
  The regular expression \<^verbatim>\<open>/\/status\/(\d+)/\<close>. \<open>status_here\<close> tries a match that starts
  at the head of the string and yields the capture, the longest run of digits after
  \<^verbatim>\<open>/status/\<close>; \<open>status_match\<close> tries the start positions from left to right, as
  \<^verbatim>\<open>String.prototype.match\<close> does.
\<close>

definition status_here :: "jsstring \<Rightarrow> jsstring option" where
  "status_here s =
     (if prefix (js ''/status/'') s \<and> takeWhile isDigit (drop 8 s) \<noteq> []
      then Some (takeWhile isDigit (drop 8 s)) else None)"

fun status_match :: "jsstring \<Rightarrow> jsstring option" where
  "status_match [] = None"
| "status_match (c # cs) =
     (case status_here (c # cs) of Some d \<Rightarrow> Some d | None \<Rightarrow> status_match cs)"

text \<open>\<^verbatim>\<open>extractTweetIdFromLink(link)\<close>, lines 78 to 82.\<close>

definition extractTweetIdFromLink :: "jsstring option \<Rightarrow> jsstring option" where
  "extractTweetIdFromLink l =
     (case l of
        None \<Rightarrow> None
      | Some s \<Rightarrow> if s = [] then None else status_match s)"

text \<open>
  \<^verbatim>\<open>pickLatestByStatusId(items)\<close>, lines 90 to 106. The loop carries \<^verbatim>\<open>bestItem\<close> and
  \<^verbatim>\<open>bestId\<close>; \<open>falsy\<close> is \<^verbatim>\<open>!x\<close> on a value that is a string or null.
\<close>

definition falsy :: "jsstring option \<Rightarrow> bool" where
  "falsy x \<longleftrightarrow> x = None \<or> x = Some []"

fun pick_loop :: "item list \<Rightarrow> item option \<Rightarrow> jsstring option \<Rightarrow> exn + (item option \<times> jsstring option)" where
  "pick_loop [] bestItem bestId = Inr (bestItem, bestId)"
| "pick_loop (it # its) bestItem bestId =
     (case extractTweetIdFromLink (link it) of
        None \<Rightarrow> pick_loop its bestItem bestId
      | Some d \<Rightarrow>
          if d = [] then pick_loop its bestItem bestId
          else if falsy bestId then pick_loop its (Some it) (Some d)
          else
            (case BigInt d of
               Inl e \<Rightarrow> Inl e
             | Inr a \<Rightarrow>
                 (case BigInt (the bestId) of
                    Inl e \<Rightarrow> Inl e
                  | Inr b \<Rightarrow>
                      if a > b then pick_loop its (Some it) (Some d)
                      else pick_loop its bestItem bestId)))"

definition pickLatestByStatusId :: "item list \<Rightarrow> exn + (item \<times> jsstring) option" where
  "pickLatestByStatusId items =
     (case pick_loop items None None of
        Inl e \<Rightarrow> Inl e
      | Inr (bestItem, bestId) \<Rightarrow>
          (case bestItem of
             None \<Rightarrow> Inr None
           | Some it \<Rightarrow> if falsy bestId then Inr None else Inr (Some (it, the bestId))))"

section \<open>The translator adapter\<close>

text \<open>
  The regular expression \<^verbatim>\<open>/^https?:\/\/\S+$/i\<close>. Under the \<^verbatim>\<open>i\<close> flag a letter of the
  pattern matches itself and its upper-case form; \<open>ci\<close> takes the lower-case letter of
  the pattern first. \<open>url_tail\<close> is \<^verbatim>\<open>:\/\/\S+$\<close>.
\<close>

definition ci :: "code_unit \<Rightarrow> code_unit \<Rightarrow> bool" where
  "ci p c \<longleftrightarrow> c = p \<or> c + 32 = p"

definition url_tail :: "jsstring \<Rightarrow> bool" where
  "url_tail r \<longleftrightarrow>
     prefix (js ''://'') r \<and> drop 3 r \<noteq> [] \<and> list_all (\<lambda>c. \<not> isWhiteSpace c) (drop 3 r)"

definition isBareUrl :: "jsstring \<Rightarrow> bool" where
  "isBareUrl s \<longleftrightarrow>
     (case s of
        h # t1 # t2 # p # r \<Rightarrow>
          ci (of_char CHR ''h'') h \<and> ci (of_char CHR ''t'') t1 \<and> ci (of_char CHR ''t'') t2 \<and> ci (of_char CHR ''p'') p \<and>
          ((case r of c # r' \<Rightarrow> ci (of_char CHR ''s'') c \<and> url_tail r' | [] \<Rightarrow> False) \<or> url_tail r)
      | _ \<Rightarrow> False)"

text \<open>
  What \<^verbatim>\<open>deeplTranslator.translateText(text, null, 'en-US')\<close> resolves to: an object whose
  \<^verbatim>\<open>text\<close> may be absent, or no object at all.
\<close>

record text_result =
  result_text :: "jsstring option"

text \<open>
  The provider: the call either throws or resolves. \<open>None\<close> for the adapter's
  \<^verbatim>\<open>deeplTranslator\<close> means that no key is configured.
\<close>

type_synonym translator = "jsstring \<Rightarrow> exn + text_result option"

text \<open>
  A notification candidate, as \<^verbatim>\<open>fetchLatestTweet\<close> returns it, and the notification that
  \<^verbatim>\<open>pollOnce\<close> builds from it. The field \<^verbatim>\<open>id\<close> is called \<open>tweet_id\<close> here;
  \<^verbatim>\<open>publishedAt\<close> is a time stamp in milliseconds.
\<close>

record latest_tweet =
  username :: jsstring
  tweet_id :: jsstring
  url :: jsstring
  originalText :: jsstring
  publishedAt :: "nat option"

record rss_tweet = latest_tweet +
  englishText :: jsstring

text \<open>
  The calls that leave the module, in the order in which they are made: the feed request
  of line 144 (with the log of line 142), the provider call of line 126, the delivery call
  of line 268, and the log lines that record a caught exception or the missing key.
\<close>

datatype event =
    FetchFeed jsstring
  | TranslateText jsstring
  | NotifyGuild jsstring rss_tweet
  | LogDeeplKeyMissing
  | ErrTranslateFailed exn
  | ErrFetchFailed jsstring exn
  | ErrPrimeFailed jsstring exn
  | ErrInitialPrimeFailed exn
  | ErrTickFailed exn

text \<open>
  \<^verbatim>\<open>translateToEnglish(originalText)\<close>, lines 114 to 132, with the module constant
  \<^verbatim>\<open>deeplTranslator\<close> as a parameter. The result is the list of calls made and either the
  returned string or an exception that escapes.
\<close>

definition translateToEnglish :: "translator option \<Rightarrow> jsstring \<Rightarrow> event list \<times> (exn + jsstring)" where
  "translateToEnglish deeplTranslator original =
     (let text = trim original
      in if text = [] then ([], Inr [])
         else if isBareUrl text then ([], Inr text)
         else
           (case deeplTranslator of
              None \<Rightarrow> ([LogDeeplKeyMissing], Inr text)
            | Some translateText \<Rightarrow>
                (case translateText text of
                   Inr result \<Rightarrow>
                     ([TranslateText text],
                      Inr (case result of
                             None \<Rightarrow> []
                           | Some r \<Rightarrow>
                               (case result_text r of
                                  None \<Rightarrow> []
                                | Some t \<Rightarrow> if t = [] then [] else t)))
                 | Inl err \<Rightarrow> ([TranslateText text, ErrTranslateFailed err], Inr text))))"

section \<open>Fetching, priming and polling\<close>

text \<open>
  The snapshot that \<^verbatim>\<open>getGuildState\<close> of \<^verbatim>\<open>index.js\<close> resolves to: the map from a tenant
  to its list of identities, in insertion order, and the identities of all tenants.
\<close>

record guild_state =
  guildMap :: "(jsstring \<times> jsstring list) list"
  allUsernames :: "jsstring list"

text \<open>
  The collaborators of one run of the module. \<open>parseFeed u\<close> is the outcome of lines 141
  to 145 for the identity \<open>u\<close>: building the address and reading the feed throws, or
  the feed has an array of items (\<open>Some\<close>) or none. \<open>parseDate\<close> is \<^verbatim>\<open>new Date(s)\<close>, with
  \<open>None\<close> for an invalid date. \<open>notifyGuild\<close> yields the exception that the delivery
  throws, if it throws.
\<close>

record env =
  parseFeed :: "jsstring \<Rightarrow> exn + item list option"
  parseDate :: "jsstring \<Rightarrow> nat option"
  deeplTranslator :: "translator option"
  getGuildState :: "exn + guild_state"
  notifyGuild :: "jsstring \<Rightarrow> rss_tweet \<Rightarrow> exn option"

text \<open>\<^verbatim>\<open>fetchLatestTweet(username)\<close>, lines 140 to 167.\<close>

definition fetchLatestTweet :: "env \<Rightarrow> jsstring \<Rightarrow> exn + latest_tweet option" where
  "fetchLatestTweet E u =
     (case parseFeed E u of
        Inl err \<Rightarrow> Inl err
      | Inr feed \<Rightarrow>
          (let items = (case feed of Some xs \<Rightarrow> xs | None \<Rightarrow> [])
           in if items = [] then Inr None
              else
                (case pickLatestByStatusId items of
                   Inl err \<Rightarrow> Inl err
                 | Inr None \<Rightarrow> Inr None
                 | Inr (Some (it, d)) \<Rightarrow>
                     (let rawDate = (if \<not> falsy (isoDate it) then isoDate it
                                     else if \<not> falsy (pubDate it) then pubDate it
                                     else None)
                      in Inr (Some \<lparr>username = u, tweet_id = d,
                                     url = (js ''https://x.com/'') @ u @ (js ''/status/'') @ d,
                                     originalText = extractOriginalText it,
                                     publishedAt = (case rawDate of
                                                      None \<Rightarrow> None
                                                    | Some r \<Rightarrow> parseDate E r)\<rparr>)))))"

text \<open>
  The seen-state \<^verbatim>\<open>g_lastSeenTweetIdByUser\<close>, a \<^verbatim>\<open>Map<string, string|null>\<close>: \<open>None\<close> for an
  identity without an entry, \<open>Some None\<close> for an entry that holds \<^verbatim>\<open>null\<close>.
\<close>

type_synonym seen_map = "jsstring \<Rightarrow> jsstring option option"

text \<open>Line 208: \<^verbatim>\<open>g_lastSeenTweetIdByUser.get(u) || null\<close>.\<close>

definition lastIdOf :: "seen_map \<Rightarrow> jsstring \<Rightarrow> jsstring option" where
  "lastIdOf seen u =
     (case seen u of
        Some (Some s) \<Rightarrow> if s = [] then None else Some s
      | _ \<Rightarrow> None)"

text \<open>A step of a loop puts its calls before those of the rest of the loop.\<close>

definition emit :: "event list \<Rightarrow> seen_map \<times> event list \<times> 'a \<Rightarrow> seen_map \<times> event list \<times> 'a" where
  "emit evs r = (case r of (seen, evs', x) \<Rightarrow> (seen, evs @ evs', x))"

text \<open>\<^verbatim>\<open>primeLastSeen(usernames)\<close>, lines 175 to 185.\<close>

fun primeLastSeen :: "env \<Rightarrow> jsstring list \<Rightarrow> seen_map \<Rightarrow> seen_map \<times> event list \<times> unit" where
  "primeLastSeen E [] seen = (seen, [], ())"
| "primeLastSeen E (u # us) seen =
     (case fetchLatestTweet E u of
        Inr latest \<Rightarrow>
          emit [FetchFeed u]
            (primeLastSeen E us (seen(u := Some (map_option tweet_id latest))))
      | Inl err \<Rightarrow>
          emit [FetchFeed u, ErrPrimeFailed u err]
            (primeLastSeen E us (seen(u := Some None))))"

text \<open>
  The loop of \<^verbatim>\<open>pollOnce\<close>, lines 196 to 216, with the variable \<^verbatim>\<open>best\<close>. An exception of
  \<^verbatim>\<open>BigInt\<close> would leave the loop after the assignment of line 211.
\<close>

fun poll_loop :: "env \<Rightarrow> jsstring list \<Rightarrow> seen_map \<Rightarrow> latest_tweet option \<Rightarrow>
    seen_map \<times> event list \<times> (exn + latest_tweet option)" where
  "poll_loop E [] seen best = (seen, [], Inr best)"
| "poll_loop E (u # us) seen best =
     (case fetchLatestTweet E u of
        Inl err \<Rightarrow> emit [FetchFeed u, ErrFetchFailed u err] (poll_loop E us seen best)
      | Inr None \<Rightarrow> emit [FetchFeed u] (poll_loop E us seen best)
      | Inr (Some latest) \<Rightarrow>
          if originalText latest = [] then emit [FetchFeed u] (poll_loop E us seen best)
          else if Some (tweet_id latest) = lastIdOf seen u
          then emit [FetchFeed u] (poll_loop E us seen best)
          else
            (let seen' = seen(u := Some (Some (tweet_id latest)))
             in case best of
                  None \<Rightarrow> emit [FetchFeed u] (poll_loop E us seen' (Some latest))
                | Some b \<Rightarrow>
                    (case BigInt (tweet_id latest) of
                       Inl e \<Rightarrow> (seen', [FetchFeed u], Inl e)
                     | Inr x \<Rightarrow>
                         (case BigInt (tweet_id b) of
                            Inl e \<Rightarrow> (seen', [FetchFeed u], Inl e)
                          | Inr y \<Rightarrow>
                              emit [FetchFeed u]
                                (poll_loop E us seen' (if x > y then Some latest else Some b))))))"

text \<open>\<^verbatim>\<open>pollOnce(usernames)\<close>, lines 193 to 230.\<close>

definition pollOnce :: "env \<Rightarrow> jsstring list \<Rightarrow> seen_map \<Rightarrow>
    seen_map \<times> event list \<times> (exn + rss_tweet option)" where
  "pollOnce E usernames seen =
     (case poll_loop E usernames seen None of
        (seen', evs, Inl e) \<Rightarrow> (seen', evs, Inl e)
      | (seen', evs, Inr None) \<Rightarrow> (seen', evs, Inr None)
      | (seen', evs, Inr (Some best)) \<Rightarrow>
          (case translateToEnglish (deeplTranslator E) (originalText best) of
             (tevs, Inl e) \<Rightarrow> (seen', evs @ tevs, Inl e)
           | (tevs, Inr english) \<Rightarrow>
               (seen', evs @ tevs,
                Inr (Some \<lparr>username = username best, tweet_id = tweet_id best, url = url best,
                           originalText = originalText best, publishedAt = publishedAt best,
                           englishText = english\<rparr>))))"

text \<open>
  The fan-out of lines 266 to 270 over the entries of \<^verbatim>\<open>state.guildMap\<close>: an exception of
  \<^verbatim>\<open>notifyGuild\<close> leaves the loop.
\<close>

fun notify_loop :: "env \<Rightarrow> (jsstring \<times> jsstring list) list \<Rightarrow> rss_tweet \<Rightarrow> event list \<times> exn option" where
  "notify_loop E [] tweet = ([], None)"
| "notify_loop E ((guildId, accounts) # gs) tweet =
     (if username tweet \<in> set accounts
      then (case notifyGuild E guildId tweet of
              Some e \<Rightarrow> ([NotifyGuild guildId tweet], Some e)
            | None \<Rightarrow>
                (case notify_loop E gs tweet of
                   (evs, r) \<Rightarrow> (NotifyGuild guildId tweet # evs, r)))
      else notify_loop E gs tweet)"

text \<open>
  One firing of the timer, lines 260 to 274: every exception is caught and logged by the
  handler of line 271, and the timer stays armed.
\<close>

definition tick :: "env \<Rightarrow> seen_map \<Rightarrow> seen_map \<times> event list" where
  "tick E seen =
     (case getGuildState E of
        Inl e \<Rightarrow> (seen, [ErrTickFailed e])
      | Inr state \<Rightarrow>
          (case pollOnce E (allUsernames state) seen of
             (seen', evs, Inl e) \<Rightarrow> (seen', evs @ [ErrTickFailed e])
           | (seen', evs, Inr None) \<Rightarrow> (seen', evs)
           | (seen', evs, Inr (Some tweet)) \<Rightarrow>
               (case notify_loop E (guildMap state) tweet of
                  (nevs, Some e) \<Rightarrow> (seen', evs @ nevs @ [ErrTickFailed e])
                | (nevs, None) \<Rightarrow> (seen', evs @ nevs))))"

text \<open>The priming of lines 251 to 258, run once when the loop starts.\<close>

definition initialPrime :: "env \<Rightarrow> seen_map \<Rightarrow> seen_map \<times> event list" where
  "initialPrime E seen =
     (case getGuildState E of
        Inl e \<Rightarrow> (seen, [ErrInitialPrimeFailed e])
      | Inr state \<Rightarrow>
          (case primeLastSeen E (allUsernames state) seen of (seen', evs, _) \<Rightarrow> (seen', evs)))"

text \<open>
  The firings of the timer that \<^verbatim>\<open>startRssLoop\<close> arms at line 260, one tick after the
  other. The collaborators answer differently from one firing to the next, so each firing
  has its own \<open>env\<close>; a tick is taken to end before the next firing.
\<close>

fun run_ticks :: "env list \<Rightarrow> seen_map \<Rightarrow> seen_map \<times> event list" where
  "run_ticks [] seen = (seen, [])"
| "run_ticks (E # Es) seen =
     (case tick E seen of
        (seen', evs) \<Rightarrow> (case run_ticks Es seen' of (seen'', evs') \<Rightarrow> (seen'', evs @ evs')))"

section \<open>The polling interval\<close>

text \<open>
  A JavaScript number: \<open>NaN\<close>, an infinity, the negative zero, or another finite value,
  which is a rational number; \<open>Num 0\<close> is the positive zero.
\<close>

datatype jsnum = NaN | PosInfinity | NegInfinity | NegZero | Num rat

text \<open>
  The grammar \<^verbatim>\<open>StrNumericLiteral\<close> of the language, which decides whether \<^verbatim>\<open>Number\<close> of a
  string is a number: a decimal literal (digits with an optional fraction and an optional
  exponent, or \<^verbatim>\<open>Infinity\<close>, with an optional sign), or an unsigned binary, octal or
  hexadecimal integer literal. Digits are taken greedily, which loses no parse, since what
  follows a run of digits in a literal is never a digit.
\<close>

definition isDigits :: "jsstring \<Rightarrow> bool" where
  "isDigits s \<longleftrightarrow> s \<noteq> [] \<and> list_all isDigit s"

definition isSignedInteger :: "jsstring \<Rightarrow> bool" where
  "isSignedInteger s \<longleftrightarrow>
     isDigits s \<or> (case s of c # r \<Rightarrow> c \<in> set (js ''+-'') \<and> isDigits r | [] \<Rightarrow> False)"

definition isOptExponentPart :: "jsstring \<Rightarrow> bool" where
  "isOptExponentPart s \<longleftrightarrow>
     (case s of c # r \<Rightarrow> c \<in> set (js ''eE'') \<and> isSignedInteger r | [] \<Rightarrow> True)"

definition isStrUnsignedDecimalLiteral :: "jsstring \<Rightarrow> bool" where
  "isStrUnsignedDecimalLiteral s \<longleftrightarrow>
     s = js ''Infinity'' \<or>
     (if takeWhile isDigit s \<noteq> []
      then isOptExponentPart (dropWhile isDigit s) \<or>
           (case dropWhile isDigit s of
              c # r \<Rightarrow> c = of_char CHR ''.'' \<and> isOptExponentPart (dropWhile isDigit r)
            | [] \<Rightarrow> False)
      else (case s of
              c # r \<Rightarrow> c = of_char CHR ''.'' \<and> takeWhile isDigit r \<noteq> [] \<and>
                       isOptExponentPart (dropWhile isDigit r)
            | [] \<Rightarrow> False))"

definition isStrDecimalLiteral :: "jsstring \<Rightarrow> bool" where
  "isStrDecimalLiteral s \<longleftrightarrow>
     isStrUnsignedDecimalLiteral s \<or>
     (case s of c # r \<Rightarrow> c \<in> set (js ''+-'') \<and> isStrUnsignedDecimalLiteral r | [] \<Rightarrow> False)"

definition isNonDecimalIntegerLiteral :: "jsstring \<Rightarrow> bool" where
  "isNonDecimalIntegerLiteral s \<longleftrightarrow>
     (case s of
        z # x # r \<Rightarrow>
          z = of_char CHR ''0'' \<and> r \<noteq> [] \<and>
          (x \<in> set (js ''bB'') \<and> list_all (\<lambda>c. c \<in> set (js ''01'')) r \<or>
           x \<in> set (js ''oO'') \<and> list_all (\<lambda>c. c \<in> set (js ''01234567'')) r \<or>
           x \<in> set (js ''xX'') \<and> list_all (\<lambda>c. c \<in> set (js ''0123456789abcdefABCDEF'')) r)
      | _ \<Rightarrow> False)"

definition isStrNumericLiteral :: "jsstring \<Rightarrow> bool" where
  "isStrNumericLiteral s \<longleftrightarrow> isStrDecimalLiteral s \<or> isNonDecimalIntegerLiteral s"

text \<open>
  The mathematical value that the language gives to a literal of the grammar: the digits
  before the point, plus the digits after it scaled by their number, times ten to the
  exponent; and the digits of a binary, octal or hexadecimal literal in their radix.
\<close>

definition pow10 :: "int \<Rightarrow> rat" where
  "pow10 e = (if 0 \<le> e then 10 ^ nat e else 1 / 10 ^ nat (- e))"

definition SignedIntegerMV :: "jsstring \<Rightarrow> int" where
  "SignedIntegerMV s =
     (case s of
        c # r \<Rightarrow>
          if c = of_char CHR ''-'' then - int (decimal r)
          else if c = of_char CHR ''+'' then int (decimal r)
          else int (decimal s)
      | [] \<Rightarrow> 0)"

definition ExponentPartMV :: "jsstring \<Rightarrow> int" where
  "ExponentPartMV s = (case s of c # r \<Rightarrow> SignedIntegerMV r | [] \<Rightarrow> 0)"

definition StrUnsignedDecimalLiteralMV :: "jsstring \<Rightarrow> rat" where
  "StrUnsignedDecimalLiteralMV s =
     (let a = takeWhile isDigit s
      in case dropWhile isDigit s of
           c # r \<Rightarrow>
             if c = of_char CHR ''.''
             then (let b = takeWhile isDigit r
                   in (of_nat (decimal a) + of_nat (decimal b) / 10 ^ length b) *
                      pow10 (ExponentPartMV (dropWhile isDigit r)))
             else of_nat (decimal a) * pow10 (ExponentPartMV (c # r))
         | [] \<Rightarrow> of_nat (decimal a))"

definition radixDigitValue :: "code_unit \<Rightarrow> nat" where
  "radixDigitValue c = (if isDigit c then c - 48 else if 97 \<le> c then c - 87 else c - 55)"

definition NonDecimalIntegerLiteralMV :: "jsstring \<Rightarrow> nat" where
  "NonDecimalIntegerLiteralMV s =
     (case s of
        z # x # r \<Rightarrow>
          (let radix = (if x \<in> set (js ''bB'') then 2 else if x \<in> set (js ''oO'') then 8 else 16)
           in foldl (\<lambda>acc c. radix * acc + radixDigitValue c) 0 r)
      | _ \<Rightarrow> 0)"

text \<open>
  A number is a double. A double holds exactly every \<open>p / 2 ^ k\<close> with \<open>p\<close> of at most 53
  bits and \<open>k\<close> up to 1074, and the value that is held exactly is the value of the literal.
  The rounding of every other mathematical value to a double is a floating-point
  computation of the language, which the model takes as the parameter \<open>roundMV\<close>, from a
  positive value to the finite double nearest to it, or to \<open>None\<close> when that is the
  infinity.
\<close>

definition exactDouble :: "rat \<Rightarrow> bool" where
  "exactDouble r \<longleftrightarrow>
     list_ex (\<lambda>k. of_int \<lfloor>r * 2 ^ k\<rfloor> = r * 2 ^ k \<and> \<bar>r * 2 ^ k\<bar> \<le> 2 ^ 53) [0..<1075]"

definition RoundMVResult :: "(rat \<Rightarrow> rat option) \<Rightarrow> rat \<Rightarrow> jsnum" where
  "RoundMVResult roundMV r =
     (if exactDouble r then Num r
      else (case roundMV r of None \<Rightarrow> PosInfinity | Some d \<Rightarrow> Num d))"

definition negate :: "jsnum \<Rightarrow> jsnum" where
  "negate n =
     (case n of
        NaN \<Rightarrow> NaN
      | PosInfinity \<Rightarrow> NegInfinity
      | NegInfinity \<Rightarrow> PosInfinity
      | NegZero \<Rightarrow> Num 0
      | Num r \<Rightarrow> if r = 0 then NegZero else Num (- r))"

definition StrUnsignedDecimalLiteralValue :: "(rat \<Rightarrow> rat option) \<Rightarrow> jsstring \<Rightarrow> jsnum" where
  "StrUnsignedDecimalLiteralValue roundMV s =
     (if s = js ''Infinity'' then PosInfinity
      else RoundMVResult roundMV (StrUnsignedDecimalLiteralMV s))"

definition StrDecimalLiteralValue :: "(rat \<Rightarrow> rat option) \<Rightarrow> jsstring \<Rightarrow> jsnum" where
  "StrDecimalLiteralValue roundMV s =
     (case s of
        c # r \<Rightarrow>
          if c = of_char CHR ''-'' then negate (StrUnsignedDecimalLiteralValue roundMV r)
          else if c = of_char CHR ''+'' then StrUnsignedDecimalLiteralValue roundMV r
          else StrUnsignedDecimalLiteralValue roundMV s
      | [] \<Rightarrow> NaN)"

text \<open>
  \<^verbatim>\<open>Number(s)\<close> on a string: white space alone is \<open>0\<close>; a string that, trimmed, is a
  numeric literal is the value of the literal; every other string is \<open>NaN\<close>.
\<close>

definition Number_of_string :: "(rat \<Rightarrow> rat option) \<Rightarrow> jsstring \<Rightarrow> jsnum" where
  "Number_of_string roundMV s =
     (let t = trim s
      in if t = [] then Num 0
         else if isStrDecimalLiteral t then StrDecimalLiteralValue roundMV t
         else if isNonDecimalIntegerLiteral t
           then RoundMVResult roundMV (of_nat (NonDecimalIntegerLiteralMV t))
         else NaN)"

text \<open>
  Line 550 of \<^verbatim>\<open>index.js\<close>: \<^verbatim>\<open>Number(process.env.RSS_INTERVAL_MS || 60_000)\<close>, with \<open>None\<close>
  for an unset variable; \<^verbatim>\<open>Number\<close> of the number 60000 is that number.
\<close>

definition configuredIntervalMs :: "(rat \<Rightarrow> rat option) \<Rightarrow> jsstring option \<Rightarrow> jsnum" where
  "configuredIntervalMs roundMV v =
     (if falsy v then Num 60000 else Number_of_string roundMV (the v))"

text \<open>
  Line 243 of \<^verbatim>\<open>rss.js\<close>: the default of the destructuring, which applies when
  \<^verbatim>\<open>opts.intervalMs\<close> is \<^verbatim>\<open>undefined\<close> (\<open>None\<close>).
\<close>

definition loopIntervalMs :: "jsnum option \<Rightarrow> jsnum" where
  "loopIntervalMs intervalMs = (case intervalMs of None \<Rightarrow> Num 60000 | Some n \<Rightarrow> n)"

text \<open>The interval that the \<^verbatim>\<open>clientReady\<close> handler makes the loop run with.\<close>

definition pollingIntervalMs :: "(rat \<Rightarrow> rat option) \<Rightarrow> jsstring option \<Rightarrow> jsnum" where
  "pollingIntervalMs roundMV v =
     loopIntervalMs (Some (configuredIntervalMs roundMV v))"

section \<open>Notions used to state the properties\<close>

text \<open>
  \<open>splits_at_first pat s pre post\<close>: the first occurrence of \<open>pat\<close> in \<open>s\<close> lies
  between \<open>pre\<close> and \<open>post\<close>, that is, no occurrence starts at an earlier position.
\<close>

definition splits_at_first :: "jsstring \<Rightarrow> jsstring \<Rightarrow> jsstring \<Rightarrow> jsstring \<Rightarrow> bool" where
  "splits_at_first pat s pre post \<longleftrightarrow>
     s = pre @ pat @ post \<and> list_all (\<lambda>j. \<not> prefix pat (drop j s)) [0..<length pre]"

text \<open>
  \<open>candidate E seen u\<close>: the latest item of \<open>u\<close> when its fetch succeeds, its text is
  not empty and its identifier passes the test of line 209 against \<open>seen\<close>; these are
  the items that reach the assignment of line 211.
\<close>

definition candidate :: "env \<Rightarrow> seen_map \<Rightarrow> jsstring \<Rightarrow> latest_tweet option" where
  "candidate E seen u =
     (case fetchLatestTweet E u of
        Inr (Some l) \<Rightarrow>
          if originalText l \<noteq> [] \<and> Some (tweet_id l) \<noteq> lastIdOf seen u then Some l else None
      | _ \<Rightarrow> None)"

text \<open>The seen-state in which the entry of every candidate among \<open>us\<close> is its identifier.\<close>

definition advance_seen :: "env \<Rightarrow> jsstring list \<Rightarrow> seen_map \<Rightarrow> seen_map" where
  "advance_seen E us seen =
     (\<lambda>v. if v \<in> set us
          then (case candidate E seen v of Some l \<Rightarrow> Some (Some (tweet_id l)) | None \<Rightarrow> seen v)
          else seen v)"

text \<open>The identities fetched and the deliveries made, read off a list of calls.\<close>

definition fetches :: "event list \<Rightarrow> jsstring list" where
  "fetches evs = concat (map (\<lambda>e. case e of FetchFeed u \<Rightarrow> [u] | _ \<Rightarrow> []) evs)"

definition deliveries :: "event list \<Rightarrow> (jsstring \<times> rss_tweet) list" where
  "deliveries evs = concat (map (\<lambda>e. case e of NotifyGuild g t \<Rightarrow> [(g, t)] | _ \<Rightarrow> []) evs)"

text \<open>The tenants whose list contains \<open>u\<close>, in the order of the snapshot.\<close>

definition subscribers :: "(jsstring \<times> jsstring list) list \<Rightarrow> jsstring \<Rightarrow> jsstring list" where
  "subscribers gm u = map fst (filter (\<lambda>ga. u \<in> set (snd ga)) gm)"

text \<open>The tenants of a list up to and including the first whose delivery throws.\<close>

fun upto_first_throw :: "(jsstring \<Rightarrow> bool) \<Rightarrow> jsstring list \<Rightarrow> jsstring list" where
  "upto_first_throw throws [] = []"
| "upto_first_throw throws (g # gs) =
     (if throws g then [g] else g # upto_first_throw throws gs)"

text \<open>The notification built from a candidate and the translation of its text.\<close>

definition notification :: "latest_tweet \<Rightarrow> jsstring \<Rightarrow> rss_tweet" where
  "notification l english =
     \<lparr>username = username l, tweet_id = tweet_id l, url = url l,
      originalText = originalText l, publishedAt = publishedAt l, englishText = english\<rparr>"

text \<open>
  \<open>newer_item E seen u l\<close>: \<open>l\<close> is the latest item fetched for \<open>u\<close>, it has text, and
  its identifier is not the string that the map \<open>seen\<close> holds for \<open>u\<close>.
\<close>

definition newer_item :: "env \<Rightarrow> seen_map \<Rightarrow> jsstring \<Rightarrow> latest_tweet \<Rightarrow> bool" where
  "newer_item E seen u l \<longleftrightarrow>
     fetchLatestTweet E u = Inr (Some l) \<and> originalText l \<noteq> [] \<and>
     seen u \<noteq> Some (Some (tweet_id l))"

text \<open>
  The map in which every identity of \<open>us\<close> with a newer item holds the identifier of
  that item, and every other entry is the one of \<open>seen\<close>.
\<close>

definition seen_after :: "env \<Rightarrow> jsstring list \<Rightarrow> seen_map \<Rightarrow> seen_map" where
  "seen_after E us seen =
     (\<lambda>v. case fetchLatestTweet E v of
            Inr (Some l) \<Rightarrow>
              if v \<in> set us \<and> originalText l \<noteq> [] \<and> seen v \<noteq> Some (Some (tweet_id l))
              then Some (Some (tweet_id l)) else seen v
          | _ \<Rightarrow> seen v)"

text \<open>The map that priming over \<open>us\<close> leaves.\<close>

definition primed :: "env \<Rightarrow> jsstring list \<Rightarrow> seen_map \<Rightarrow> seen_map" where
  "primed E us seen =
     (\<lambda>v. if v \<in> set us
          then (case fetchLatestTweet E v of
                  Inr latest \<Rightarrow> Some (map_option tweet_id latest)
                | Inl e \<Rightarrow> Some None)
          else seen v)"

text \<open>
  The deliveries of a notification to the tenants of its identity, up to and including the
  first tenant whose delivery throws.
\<close>

definition fan_out :: "env \<Rightarrow> guild_state \<Rightarrow> rss_tweet \<Rightarrow> (jsstring \<times> rss_tweet) list" where
  "fan_out E st tw =
     map (\<lambda>g. (g, tw))
       (upto_first_throw (\<lambda>g. notifyGuild E g tw \<noteq> None)
          (subscribers (guildMap st) (username tw)))"

section \<open>Concrete inputs\<close>

definition ex_item :: "jsstring \<Rightarrow> item" where
  "ex_item l = \<lparr>link = Some l, title = None, isoDate = None, pubDate = None\<rparr>"


definition failing_provider :: translator where
  "failing_provider s = Inl (Thrown ''quota exceeded'')"

definition textless_provider :: translator where
  "textless_provider s = Inr (Some \<lparr>result_text = None\<rparr>)"

definition ex_feed_item :: "jsstring \<Rightarrow> jsstring \<Rightarrow> item" where
  "ex_feed_item l t = \<lparr>link = Some l, title = Some t, isoDate = None, pubDate = None\<rparr>"

text \<open>
  A world without tenants, translation provider or readable dates, in which the feed of
  each identity is given by \<open>feeds\<close>.
\<close>

definition ex_env :: "(jsstring \<Rightarrow> exn + item list option) \<Rightarrow> env" where
  "ex_env feeds =
     \<lparr>parseFeed = feeds, parseDate = (\<lambda>s. None), deeplTranslator = None,
      getGuildState = Inr \<lparr>guildMap = [], allUsernames = []\<rparr>,
      notifyGuild = (\<lambda>g t. None)\<rparr>"

definition ex_feed_jane :: "jsstring \<Rightarrow> exn + item list option" where
  "ex_feed_jane u =
     Inr (Some [ex_feed_item (js ''https://nitter.example/someone_else/status/42#m'') (js ''RT by @jane: hi'')])"

text \<open>
  Three identities: \<open>A\<close> with latest identifier 5, \<open>B\<close> with latest identifier 10, and
  \<open>C\<close>, whose feed cannot be read. Three tenants: \<open>g1\<close> follows \<open>A\<close> and \<open>B\<close>, \<open>g2\<close>
  follows \<open>B\<close>, \<open>g3\<close> follows \<open>C\<close>; or \<open>g1\<close> alone, following \<open>A\<close>. Deliveries to the
  tenants in \<open>throws\<close> fail.
\<close>

definition ex_feeds :: "jsstring \<Rightarrow> exn + item list option" where
  "ex_feeds u =
     (if u = (js ''A'') then
        Inr (Some [ex_feed_item (js ''https://nitter.example/A/status/4#m'') (js ''A (@A): four''),
                   ex_feed_item (js ''https://nitter.example/A/status/5#m'') (js ''A (@A): five'')])
      else if u = (js ''B'') then
        Inr (Some [ex_feed_item (js ''https://nitter.example/B/status/10#m'') (js ''B (@B): ten'')])
      else if u = (js ''C'') then Inl (Thrown ''timeout'')
      else Inr None)"

definition ex_guilds :: guild_state where
  "ex_guilds =
     \<lparr>guildMap = [((js ''g1''), [(js ''A''), (js ''B'')]), ((js ''g2''), [(js ''B'')]), ((js ''g3''), [(js ''C'')])],
      allUsernames = [(js ''A''), (js ''B''), (js ''C'')]\<rparr>"

definition ex_only_A :: guild_state where
  "ex_only_A = \<lparr>guildMap = [((js ''g1''), [(js ''A'')])], allUsernames = [(js ''A'')]\<rparr>"

definition ex_world :: "guild_state \<Rightarrow> (jsstring \<Rightarrow> bool) \<Rightarrow> env" where
  "ex_world st throws =
     \<lparr>parseFeed = ex_feeds, parseDate = (\<lambda>s. None), deeplTranslator = None,
      getGuildState = Inr st,
      notifyGuild = (\<lambda>g t. if throws g then Some (Thrown ''missing access'') else None)\<rparr>"

definition ex_tweet_A :: latest_tweet where
  "ex_tweet_A = \<lparr>username = (js ''A''), tweet_id = (js ''5''), url = (js ''https://x.com/A/status/5''),
                 originalText = (js ''five''), publishedAt = None\<rparr>"

definition ex_tweet_B :: latest_tweet where
  "ex_tweet_B = \<lparr>username = (js ''B''), tweet_id = (js ''10''), url = (js ''https://x.com/B/status/10''),
                 originalText = (js ''ten''), publishedAt = None\<rparr>"

text \<open>Seen-states: \<open>A\<close> at 3 and \<open>B\<close> at 1; and \<open>A\<close> at 10, above the latest item of its feed.\<close>

definition ex_seen :: seen_map where
  "ex_seen = (\<lambda>u. if u = (js ''A'') then Some (Some (js ''3'')) else if u = (js ''B'') then Some (Some (js ''1'')) else None)"

definition ex_seen_ahead :: seen_map where
  "ex_seen_ahead = (\<lambda>u. if u = (js ''A'') then Some (Some (js ''10'')) else None)"

text \<open>
  The rounding on the one value that the examples round: a tenth, to the double nearest
  to it.
\<close>

definition ex_roundMV :: "rat \<Rightarrow> rat option" where
  "ex_roundMV r = (if r = 1 / 10 then Some (3602879701896397 / 36028797018963968) else None)"

section \<open>Literals\<close>

lemma js_eq_iff [simp]: "js a = js b \<longleftrightarrow> a = b"
  unfolding js_def by (rule inj_map_eq_map) (simp add: inj_def)

lemma js_Nil [simp]: "js [] = []" "js s = [] \<longleftrightarrow> s = []" "[] = js s \<longleftrightarrow> s = []"
  by (auto simp: js_def)

lemma js_append: "js a @ js b = js (a @ b)"
  by (simp add: js_def)

lemma length_js [simp]: "length (js s) = length s"
  by (simp add: js_def)

section \<open>The selector picks the first greatest identifier\<close>

lemma status_here_numeral:
  "status_here s = Some d \<Longrightarrow> d \<noteq> [] \<and> list_all isDigit d"
  by (auto simp: status_here_def list_all_iff js_def split: if_splits dest: set_takeWhileD)

lemma status_match_numeral:
  "status_match s = Some d \<Longrightarrow> d \<noteq> [] \<and> list_all isDigit d"
  by (induction s) (auto split: option.splits dest: status_here_numeral)

lemma extract_is_numeral:
  "extractTweetIdFromLink l = Some d \<Longrightarrow> d \<noteq> [] \<and> list_all isDigit d"
  by (auto simp: extractTweetIdFromLink_def split: option.splits if_splits
      dest: status_match_numeral)

lemma extract_BigInt:
  "extractTweetIdFromLink l = Some d \<Longrightarrow> BigInt d = Inr (decimal d)"
  by (auto simp: BigInt_def dest: extract_is_numeral)

lemma pick_loop_step_keep:
  assumes "extractTweetIdFromLink (link it) = None"
  shows "pick_loop (it # its) bi bd = pick_loop its bi bd"
  using assms by simp

lemma pick_loop_step_some:
  assumes "extractTweetIdFromLink (link it) = Some d" and "bd \<noteq> []" and "list_all isDigit bd"
  shows "pick_loop (it # its) (Some b) (Some bd) =
           (if decimal bd < decimal d then pick_loop its (Some it) (Some d)
            else pick_loop its (Some b) (Some bd))"
  using assms extract_is_numeral[OF assms(1)]
  by (simp add: falsy_def BigInt_def)

lemma pick_loop_step_first:
  assumes "extractTweetIdFromLink (link it) = Some d"
  shows "pick_loop (it # its) None None = pick_loop its (Some it) (Some d)"
  using assms extract_is_numeral[OF assms]
  by (simp add: falsy_def)

lemma pick_loop_from_best:
  assumes "bd \<noteq> []" and "list_all isDigit bd"
  shows "\<exists>r rd. pick_loop its (Some b) (Some bd) = Inr (Some r, Some rd) \<and>
           rd \<noteq> [] \<and> list_all isDigit rd \<and> decimal bd \<le> decimal rd \<and>
           (\<forall>j<length its. \<forall>d. extractTweetIdFromLink (link (its ! j)) = Some d \<longrightarrow> decimal d \<le> decimal rd) \<and>
           ((r = b \<and> rd = bd) \<or>
            (\<exists>i<length its. its ! i = r \<and> extractTweetIdFromLink (link r) = Some rd \<and>
               decimal bd < decimal rd \<and>
               (\<forall>j<i. \<forall>d. extractTweetIdFromLink (link (its ! j)) = Some d \<longrightarrow> decimal d < decimal rd)))"
  using assms
proof (induction its arbitrary: b bd)
  case Nil
  then show ?case by simp
next
  case (Cons it its)
  show ?case
  proof (cases "extractTweetIdFromLink (link it)")
    case None
    from Cons.IH[OF Cons.prems] obtain r rd where
      run: "pick_loop its (Some b) (Some bd) = Inr (Some r, Some rd)" and
      num: "rd \<noteq> []" "list_all isDigit rd" and ge: "decimal bd \<le> decimal rd" and
      mx: "\<forall>j<length its. \<forall>d. extractTweetIdFromLink (link (its ! j)) = Some d \<longrightarrow> decimal d \<le> decimal rd" and
      pos: "(r = b \<and> rd = bd) \<or>
            (\<exists>i<length its. its ! i = r \<and> extractTweetIdFromLink (link r) = Some rd \<and>
               decimal bd < decimal rd \<and>
               (\<forall>j<i. \<forall>d. extractTweetIdFromLink (link (its ! j)) = Some d \<longrightarrow> decimal d < decimal rd))"
      by blast
    have run': "pick_loop (it # its) (Some b) (Some bd) = Inr (Some r, Some rd)"
      using None run by simp
    have mx': "\<forall>j<length (it # its). \<forall>d. extractTweetIdFromLink (link ((it # its) ! j)) = Some d \<longrightarrow> decimal d \<le> decimal rd"
      using mx None by (auto simp: nth_Cons split: nat.splits)
    have pos': "(r = b \<and> rd = bd) \<or>
            (\<exists>i<length (it # its). (it # its) ! i = r \<and> extractTweetIdFromLink (link r) = Some rd \<and>
               decimal bd < decimal rd \<and>
               (\<forall>j<i. \<forall>d. extractTweetIdFromLink (link ((it # its) ! j)) = Some d \<longrightarrow> decimal d < decimal rd))"
    proof (rule disjE[OF pos])
      assume "r = b \<and> rd = bd" then show ?thesis by simp
    next
      assume "\<exists>i<length its. its ! i = r \<and> extractTweetIdFromLink (link r) = Some rd \<and>
               decimal bd < decimal rd \<and>
               (\<forall>j<i. \<forall>d. extractTweetIdFromLink (link (its ! j)) = Some d \<longrightarrow> decimal d < decimal rd)"
      then obtain i where i: "i < length its" "its ! i = r" "extractTweetIdFromLink (link r) = Some rd"
        "decimal bd < decimal rd"
        "\<forall>j<i. \<forall>d. extractTweetIdFromLink (link (its ! j)) = Some d \<longrightarrow> decimal d < decimal rd"
        by blast
      have "\<forall>j<Suc i. \<forall>d. extractTweetIdFromLink (link ((it # its) ! j)) = Some d \<longrightarrow> decimal d < decimal rd"
        using i(5) None by (auto simp: nth_Cons split: nat.splits)
      with i have "Suc i < length (it # its) \<and> (it # its) ! Suc i = r \<and> extractTweetIdFromLink (link r) = Some rd \<and>
               decimal bd < decimal rd \<and>
               (\<forall>j<Suc i. \<forall>d. extractTweetIdFromLink (link ((it # its) ! j)) = Some d \<longrightarrow> decimal d < decimal rd)"
        by simp
      then show ?thesis by blast
    qed
    from run' num ge mx' pos' show ?thesis by blast
  next
    case (Some d)
    note dnum = extract_is_numeral[OF Some]
    show ?thesis
    proof (cases "decimal bd < decimal d")
      case True
      from Cons.IH[of d it] dnum obtain r rd where
        run: "pick_loop its (Some it) (Some d) = Inr (Some r, Some rd)" and
        num: "rd \<noteq> []" "list_all isDigit rd" and ge: "decimal d \<le> decimal rd" and
        mx: "\<forall>j<length its. \<forall>d. extractTweetIdFromLink (link (its ! j)) = Some d \<longrightarrow> decimal d \<le> decimal rd" and
        pos: "(r = it \<and> rd = d) \<or>
            (\<exists>i<length its. its ! i = r \<and> extractTweetIdFromLink (link r) = Some rd \<and>
               decimal d < decimal rd \<and>
               (\<forall>j<i. \<forall>d. extractTweetIdFromLink (link (its ! j)) = Some d \<longrightarrow> decimal d < decimal rd))"
        by blast
      have run': "pick_loop (it # its) (Some b) (Some bd) = Inr (Some r, Some rd)"
        using pick_loop_step_some[OF Some Cons.prems] True run by simp
      have mx': "\<forall>j<length (it # its). \<forall>d. extractTweetIdFromLink (link ((it # its) ! j)) = Some d \<longrightarrow> decimal d \<le> decimal rd"
        using mx Some ge by (auto simp: nth_Cons split: nat.splits)
      have lt: "decimal bd < decimal rd" using True ge by simp
      have "\<exists>i<length (it # its). (it # its) ! i = r \<and> extractTweetIdFromLink (link r) = Some rd \<and>
               decimal bd < decimal rd \<and>
               (\<forall>j<i. \<forall>d. extractTweetIdFromLink (link ((it # its) ! j)) = Some d \<longrightarrow> decimal d < decimal rd)"
      proof (rule disjE[OF pos])
        assume "r = it \<and> rd = d"
        with Some lt have "0 < length (it # its) \<and> (it # its) ! 0 = r \<and> extractTweetIdFromLink (link r) = Some rd \<and>
               decimal bd < decimal rd \<and>
               (\<forall>j<0. \<forall>d. extractTweetIdFromLink (link ((it # its) ! j)) = Some d \<longrightarrow> decimal d < decimal rd)"
          by simp
        then show ?thesis by blast
      next
        assume "\<exists>i<length its. its ! i = r \<and> extractTweetIdFromLink (link r) = Some rd \<and>
               decimal d < decimal rd \<and>
               (\<forall>j<i. \<forall>d. extractTweetIdFromLink (link (its ! j)) = Some d \<longrightarrow> decimal d < decimal rd)"
        then obtain i where i: "i < length its" "its ! i = r" "extractTweetIdFromLink (link r) = Some rd"
          "decimal d < decimal rd"
          "\<forall>j<i. \<forall>d. extractTweetIdFromLink (link (its ! j)) = Some d \<longrightarrow> decimal d < decimal rd"
          by blast
        have "\<forall>j<Suc i. \<forall>d. extractTweetIdFromLink (link ((it # its) ! j)) = Some d \<longrightarrow> decimal d < decimal rd"
          using i(4,5) Some by (auto simp: nth_Cons split: nat.splits)
        with i lt have "Suc i < length (it # its) \<and> (it # its) ! Suc i = r \<and> extractTweetIdFromLink (link r) = Some rd \<and>
               decimal bd < decimal rd \<and>
               (\<forall>j<Suc i. \<forall>d. extractTweetIdFromLink (link ((it # its) ! j)) = Some d \<longrightarrow> decimal d < decimal rd)"
          by simp
        then show ?thesis by blast
      qed
      then have pos': "(r = b \<and> rd = bd) \<or>
            (\<exists>i<length (it # its). (it # its) ! i = r \<and> extractTweetIdFromLink (link r) = Some rd \<and>
               decimal bd < decimal rd \<and>
               (\<forall>j<i. \<forall>d. extractTweetIdFromLink (link ((it # its) ! j)) = Some d \<longrightarrow> decimal d < decimal rd))"
        by (rule disjI2)
      have ge': "decimal bd \<le> decimal rd" using lt by simp
      from run' num ge' mx' pos' show ?thesis by blast
    next
      case False
      from Cons.IH[OF Cons.prems] obtain r rd where
        run: "pick_loop its (Some b) (Some bd) = Inr (Some r, Some rd)" and
        num: "rd \<noteq> []" "list_all isDigit rd" and ge: "decimal bd \<le> decimal rd" and
        mx: "\<forall>j<length its. \<forall>d. extractTweetIdFromLink (link (its ! j)) = Some d \<longrightarrow> decimal d \<le> decimal rd" and
        pos: "(r = b \<and> rd = bd) \<or>
            (\<exists>i<length its. its ! i = r \<and> extractTweetIdFromLink (link r) = Some rd \<and>
               decimal bd < decimal rd \<and>
               (\<forall>j<i. \<forall>d. extractTweetIdFromLink (link (its ! j)) = Some d \<longrightarrow> decimal d < decimal rd))"
        by blast
      have run': "pick_loop (it # its) (Some b) (Some bd) = Inr (Some r, Some rd)"
        using pick_loop_step_some[OF Some Cons.prems] False run by simp
      have dle: "decimal d \<le> decimal rd" using False ge by simp
      have mx': "\<forall>j<length (it # its). \<forall>d. extractTweetIdFromLink (link ((it # its) ! j)) = Some d \<longrightarrow> decimal d \<le> decimal rd"
        using mx Some dle by (auto simp: nth_Cons split: nat.splits)
      have pos': "(r = b \<and> rd = bd) \<or>
            (\<exists>i<length (it # its). (it # its) ! i = r \<and> extractTweetIdFromLink (link r) = Some rd \<and>
               decimal bd < decimal rd \<and>
               (\<forall>j<i. \<forall>d. extractTweetIdFromLink (link ((it # its) ! j)) = Some d \<longrightarrow> decimal d < decimal rd))"
      proof (rule disjE[OF pos])
        assume "r = b \<and> rd = bd" then show ?thesis by simp
      next
        assume "\<exists>i<length its. its ! i = r \<and> extractTweetIdFromLink (link r) = Some rd \<and>
               decimal bd < decimal rd \<and>
               (\<forall>j<i. \<forall>d. extractTweetIdFromLink (link (its ! j)) = Some d \<longrightarrow> decimal d < decimal rd)"
        then obtain i where i: "i < length its" "its ! i = r" "extractTweetIdFromLink (link r) = Some rd"
          "decimal bd < decimal rd"
          "\<forall>j<i. \<forall>d. extractTweetIdFromLink (link (its ! j)) = Some d \<longrightarrow> decimal d < decimal rd"
          by blast
        have "decimal d < decimal rd" using False i(4) by simp
        then have "\<forall>j<Suc i. \<forall>d. extractTweetIdFromLink (link ((it # its) ! j)) = Some d \<longrightarrow> decimal d < decimal rd"
          using i(5) Some by (auto simp: nth_Cons split: nat.splits)
        with i have "Suc i < length (it # its) \<and> (it # its) ! Suc i = r \<and> extractTweetIdFromLink (link r) = Some rd \<and>
               decimal bd < decimal rd \<and>
               (\<forall>j<Suc i. \<forall>d. extractTweetIdFromLink (link ((it # its) ! j)) = Some d \<longrightarrow> decimal d < decimal rd)"
          by simp
        then show ?thesis by blast
      qed
      from run' num ge mx' pos' show ?thesis by blast
    qed
  qed
qed


lemma pick_loop_from_none:
  "(pick_loop its None None = Inr (None, None) \<and>
      (\<forall>it\<in>set its. extractTweetIdFromLink (link it) = None)) \<or>
   (\<exists>i rd. i < length its \<and> pick_loop its None None = Inr (Some (its ! i), Some rd) \<and>
      rd \<noteq> [] \<and> extractTweetIdFromLink (link (its ! i)) = Some rd \<and>
      (\<forall>j<length its. \<forall>d. extractTweetIdFromLink (link (its ! j)) = Some d \<longrightarrow> decimal d \<le> decimal rd) \<and>
      (\<forall>j<i. \<forall>d. extractTweetIdFromLink (link (its ! j)) = Some d \<longrightarrow> decimal d < decimal rd))"
proof (induction its)
  case Nil
  then show ?case by simp
next
  case (Cons it its)
  show ?case
  proof (cases "extractTweetIdFromLink (link it)")
    case None
    from Cons.IH show ?thesis
    proof (rule disjE)
      assume "pick_loop its None None = Inr (None, None) \<and>
        (\<forall>it\<in>set its. extractTweetIdFromLink (link it) = None)"
      then show ?thesis using None by simp
    next
      assume "\<exists>i rd. i < length its \<and> pick_loop its None None = Inr (Some (its ! i), Some rd) \<and>
        rd \<noteq> [] \<and> extractTweetIdFromLink (link (its ! i)) = Some rd \<and>
        (\<forall>j<length its. \<forall>d. extractTweetIdFromLink (link (its ! j)) = Some d \<longrightarrow> decimal d \<le> decimal rd) \<and>
        (\<forall>j<i. \<forall>d. extractTweetIdFromLink (link (its ! j)) = Some d \<longrightarrow> decimal d < decimal rd)"
      then obtain i rd where i: "i < length its"
        "pick_loop its None None = Inr (Some (its ! i), Some rd)" "rd \<noteq> []"
        "extractTweetIdFromLink (link (its ! i)) = Some rd"
        "\<forall>j<length its. \<forall>d. extractTweetIdFromLink (link (its ! j)) = Some d \<longrightarrow> decimal d \<le> decimal rd"
        "\<forall>j<i. \<forall>d. extractTweetIdFromLink (link (its ! j)) = Some d \<longrightarrow> decimal d < decimal rd"
        by blast
      have mx: "\<forall>j<length (it # its). \<forall>d. extractTweetIdFromLink (link ((it # its) ! j)) = Some d \<longrightarrow> decimal d \<le> decimal rd"
        using i(5) None by (auto simp: nth_Cons split: nat.splits)
      have fst: "\<forall>j<Suc i. \<forall>d. extractTweetIdFromLink (link ((it # its) ! j)) = Some d \<longrightarrow> decimal d < decimal rd"
        using i(6) None by (auto simp: nth_Cons split: nat.splits)
      have "Suc i < length (it # its) \<and>
        pick_loop (it # its) None None = Inr (Some ((it # its) ! Suc i), Some rd) \<and>
        rd \<noteq> [] \<and> extractTweetIdFromLink (link ((it # its) ! Suc i)) = Some rd"
        using i(1-4) None by simp
      with mx fst show ?thesis by blast
    qed
  next
    case (Some d)
    note dnum = extract_is_numeral[OF Some]
    from pick_loop_from_best[of d its it] dnum obtain r rd where
      run: "pick_loop its (Some it) (Some d) = Inr (Some r, Some rd)" and
      num: "rd \<noteq> []" and ge: "decimal d \<le> decimal rd" and
      mx: "\<forall>j<length its. \<forall>d. extractTweetIdFromLink (link (its ! j)) = Some d \<longrightarrow> decimal d \<le> decimal rd" and
      pos: "(r = it \<and> rd = d) \<or>
            (\<exists>i<length its. its ! i = r \<and> extractTweetIdFromLink (link r) = Some rd \<and>
               decimal d < decimal rd \<and>
               (\<forall>j<i. \<forall>d. extractTweetIdFromLink (link (its ! j)) = Some d \<longrightarrow> decimal d < decimal rd))"
      by blast
    have run': "pick_loop (it # its) None None = Inr (Some r, Some rd)"
      using pick_loop_step_first[OF Some] run by simp
    have mx': "\<forall>j<length (it # its). \<forall>d. extractTweetIdFromLink (link ((it # its) ! j)) = Some d \<longrightarrow> decimal d \<le> decimal rd"
      using mx Some ge by (auto simp: nth_Cons split: nat.splits)
    from pos have "\<exists>i. i < length (it # its) \<and> (it # its) ! i = r \<and>
        extractTweetIdFromLink (link ((it # its) ! i)) = Some rd \<and>
        (\<forall>j<i. \<forall>d. extractTweetIdFromLink (link ((it # its) ! j)) = Some d \<longrightarrow> decimal d < decimal rd)"
    proof (rule disjE)
      assume "r = it \<and> rd = d"
      with Some have "0 < length (it # its) \<and> (it # its) ! 0 = r \<and>
        extractTweetIdFromLink (link ((it # its) ! 0)) = Some rd \<and>
        (\<forall>j<0. \<forall>d. extractTweetIdFromLink (link ((it # its) ! j)) = Some d \<longrightarrow> decimal d < decimal rd)"
        by simp
      then show ?thesis by blast
    next
      assume "\<exists>i<length its. its ! i = r \<and> extractTweetIdFromLink (link r) = Some rd \<and>
               decimal d < decimal rd \<and>
               (\<forall>j<i. \<forall>d. extractTweetIdFromLink (link (its ! j)) = Some d \<longrightarrow> decimal d < decimal rd)"
      then obtain i where i: "i < length its" "its ! i = r" "extractTweetIdFromLink (link r) = Some rd"
        "decimal d < decimal rd"
        "\<forall>j<i. \<forall>d. extractTweetIdFromLink (link (its ! j)) = Some d \<longrightarrow> decimal d < decimal rd"
        by blast
      have "\<forall>j<Suc i. \<forall>d. extractTweetIdFromLink (link ((it # its) ! j)) = Some d \<longrightarrow> decimal d < decimal rd"
        using i(4,5) Some by (auto simp: nth_Cons split: nat.splits)
      with i have "Suc i < length (it # its) \<and> (it # its) ! Suc i = r \<and>
        extractTweetIdFromLink (link ((it # its) ! Suc i)) = Some rd \<and>
        (\<forall>j<Suc i. \<forall>d. extractTweetIdFromLink (link ((it # its) ! j)) = Some d \<longrightarrow> decimal d < decimal rd)"
        by simp
      then show ?thesis by blast
    qed
    then obtain i where "i < length (it # its)" "(it # its) ! i = r"
        "extractTweetIdFromLink (link ((it # its) ! i)) = Some rd"
        "\<forall>j<i. \<forall>d. extractTweetIdFromLink (link ((it # its) ! j)) = Some d \<longrightarrow> decimal d < decimal rd"
      by blast
    with run' num mx' show ?thesis by blast
  qed
qed


lemma pickLatest_spec:
  "(pickLatestByStatusId items = Inr None \<and>
      (\<forall>it\<in>set items. extractTweetIdFromLink (link it) = None)) \<or>
   (\<exists>i d. i < length items \<and> pickLatestByStatusId items = Inr (Some (items ! i, d)) \<and>
      extractTweetIdFromLink (link (items ! i)) = Some d \<and>
      (\<forall>j<length items. \<forall>d'. extractTweetIdFromLink (link (items ! j)) = Some d' \<longrightarrow>
          BigInt d' = Inr (decimal d') \<and> decimal d' \<le> decimal d) \<and>
      (\<forall>j<i. \<forall>d'. extractTweetIdFromLink (link (items ! j)) = Some d' \<longrightarrow> decimal d' < decimal d))"
proof (rule disjE[OF pick_loop_from_none[of items]])
  assume "pick_loop items None None = Inr (None, None) \<and>
      (\<forall>it\<in>set items. extractTweetIdFromLink (link it) = None)"
  then show ?thesis by (simp add: pickLatestByStatusId_def)
next
  assume "\<exists>i rd. i < length items \<and> pick_loop items None None = Inr (Some (items ! i), Some rd) \<and>
      rd \<noteq> [] \<and> extractTweetIdFromLink (link (items ! i)) = Some rd \<and>
      (\<forall>j<length items. \<forall>d. extractTweetIdFromLink (link (items ! j)) = Some d \<longrightarrow> decimal d \<le> decimal rd) \<and>
      (\<forall>j<i. \<forall>d. extractTweetIdFromLink (link (items ! j)) = Some d \<longrightarrow> decimal d < decimal rd)"
  then obtain i rd where i: "i < length items"
      "pick_loop items None None = Inr (Some (items ! i), Some rd)" "rd \<noteq> []"
      "extractTweetIdFromLink (link (items ! i)) = Some rd"
      "\<forall>j<length items. \<forall>d. extractTweetIdFromLink (link (items ! j)) = Some d \<longrightarrow> decimal d \<le> decimal rd"
      "\<forall>j<i. \<forall>d. extractTweetIdFromLink (link (items ! j)) = Some d \<longrightarrow> decimal d < decimal rd"
    by blast
  have run: "pickLatestByStatusId items = Inr (Some (items ! i, rd))"
    using i(2,3) by (simp add: pickLatestByStatusId_def falsy_def)
  have mx: "\<forall>j<length items. \<forall>d'. extractTweetIdFromLink (link (items ! j)) = Some d' \<longrightarrow>
          BigInt d' = Inr (decimal d') \<and> decimal d' \<le> decimal rd"
    using i(5) extract_BigInt by blast
  from i(1) run i(4) mx i(6) show ?thesis by blast
qed

text \<open>
  Claim C4. For every list of feed items the selector returns without an exception. It
  returns none exactly when no item has an extractable identifier. Otherwise it returns
  an item of the list with its own extracted identifier, whose value as an unbounded
  integer (the value \<^verbatim>\<open>BigInt\<close> gives it) is at least that of every extractable
  identifier of the list and strictly greater than that of every earlier item: on equal
  identifiers the first item met is kept.
\<close>

theorem pickLatest_first_greatest:
  "(pickLatestByStatusId items = Inr None \<and>
      (\<forall>it\<in>set items. extractTweetIdFromLink (link it) = None)) \<or>
   (\<exists>i d. i < length items \<and> pickLatestByStatusId items = Inr (Some (items ! i, d)) \<and>
      extractTweetIdFromLink (link (items ! i)) = Some d \<and>
      (\<forall>j<length items. \<forall>d'. extractTweetIdFromLink (link (items ! j)) = Some d' \<longrightarrow>
          BigInt d' = Inr (decimal d') \<and> decimal d' \<le> decimal d) \<and>
      (\<forall>j<i. \<forall>d'. extractTweetIdFromLink (link (items ! j)) = Some d' \<longrightarrow> decimal d' < decimal d))"
  by (rule pickLatest_spec)

text \<open>
  The selector on four items: identifiers of twenty and twenty-one digits, beyond the
  signed 64-bit range, an item without identifier, and a later item with a numerically
  equal identifier.
\<close>

theorem pickLatest_first_greatest_witness:
  "pickLatestByStatusId
     [ex_item (js ''https://nitter.net/a/status/99999999999999999999#m''),
      ex_item (js ''https://nitter.net/a/status/100000000000000000000#m''),
      ex_item (js ''https://nitter.net/a/photo/1''),
      ex_item (js ''https://nitter.net/b/status/0100000000000000000000'')]
   = Inr (Some (ex_item (js ''https://nitter.net/a/status/100000000000000000000#m''), (js ''100000000000000000000'')))
   \<and> decimal (js ''99999999999999999999'') < decimal (js ''100000000000000000000'')
   \<and> 2 ^ 63 < decimal (js ''99999999999999999999'')"
  using pickLatest_first_greatest
    [of "[ex_item (js ''https://nitter.net/a/status/99999999999999999999#m''),
      ex_item (js ''https://nitter.net/a/status/100000000000000000000#m''),
      ex_item (js ''https://nitter.net/a/photo/1''),
      ex_item (js ''https://nitter.net/b/status/0100000000000000000000'')]"]
  by (simp add: pickLatestByStatusId_def extractTweetIdFromLink_def status_here_def isDigit_def
      BigInt_def falsy_def decimal_def digitValue_def ex_item_def js_def)


section \<open>Text extraction\<close>





lemma splits_sublist: "splits_at_first pat s pre post \<Longrightarrow> sublist pat s"
  unfolding splits_at_first_def sublist_def by blast





section \<open>The translator adapter\<close>

lemma trim_id:
  assumes "s \<noteq> []" and "\<not> isWhiteSpace (hd s)" and "\<not> isWhiteSpace (last s)"
  shows "trim s = s"
proof -
  have 1: "dropWhile isWhiteSpace s = s"
    using assms(1,2) by (cases s) auto
  have "rev s \<noteq> []" "\<not> isWhiteSpace (hd (rev s))"
    using assms(1,3) by (simp_all add: hd_rev)
  then have 2: "dropWhile isWhiteSpace (rev s) = rev s"
    by (cases "rev s") auto
  show ?thesis by (simp add: trim_def 1 2)
qed

lemma ci_not_space:
  "ci (of_char CHR ''h'') c \<Longrightarrow> \<not> isWhiteSpace c"
  by (auto simp: ci_def isWhiteSpace_def js_def)

lemma url_tail_last: "url_tail r \<Longrightarrow> r \<noteq> [] \<and> \<not> isWhiteSpace (last r)"
proof -
  assume a: "url_tail r"
  then have ne: "drop 3 r \<noteq> []" and all: "list_all (\<lambda>c. \<not> isWhiteSpace c) (drop 3 r)"
    by (auto simp: url_tail_def js_def)
  from ne have r: "r \<noteq> []" by auto
  from ne have "last (drop 3 r) = last r" by (simp add: last_drop)
  moreover have "last (drop 3 r) \<in> set (drop 3 r)" by (rule last_in_set[OF ne])
  ultimately have "\<not> isWhiteSpace (last r)" using all by (auto simp: list_all_iff)
  with r show ?thesis by simp
qed

lemma isBareUrl_trim: "isBareUrl s \<Longrightarrow> trim s = s"
proof -
  assume a: "isBareUrl s"
  then obtain h t1 t2 p r where s: "s = h # t1 # t2 # p # r" and h: "ci (of_char CHR ''h'') h"
    and tl: "(case r of c # r' \<Rightarrow> ci (of_char CHR ''s'') c \<and> url_tail r' | [] \<Rightarrow> False) \<or> url_tail r"
    by (auto simp: isBareUrl_def js_def split: list.splits)
  have "r \<noteq> [] \<and> \<not> isWhiteSpace (last r)"
    using tl by (auto split: list.splits dest: url_tail_last)
  then have "\<not> isWhiteSpace (last s)" using s by simp
  moreover have "\<not> isWhiteSpace (hd s)" using s h by (simp add: ci_not_space)
  ultimately show ?thesis using s by (intro trim_id) simp_all
qed

lemma isBareUrl_nonempty: "isBareUrl s \<Longrightarrow> s \<noteq> []"
  by (auto simp: isBareUrl_def js_def)

text \<open>
  Claim C6, amended. For every input text and every provider, no exception escapes the
  translate call, and the adapter decides on the input with the white space at its ends
  removed. When the trimmed input is empty (empty input, or white space alone) the result
  is the empty string. When the trimmed input matches the whole-string URL pattern the
  result is the trimmed input, which is the input itself when the input matches the
  pattern. In these two cases the provider is not called and nothing is logged, with or
  without a provider. Otherwise, with no provider configured, the result is the trimmed
  input, with a log; with a provider, the provider is called on the trimmed input, and
  when the call throws the exception is logged and the result is again the trimmed input.
  The log of the missing key is written exactly when the trimmed input is not empty, does
  not match the pattern and no provider is configured; the provider is called exactly when
  the trimmed input is not empty, does not match the pattern and a provider is configured.
\<close>

theorem translateToEnglish_trimmed:
  "(\<exists>evs s. translateToEnglish deepl original = (evs, Inr s)) \<and>
   (trim original = [] \<longrightarrow> translateToEnglish deepl original = ([], Inr [])) \<and>
   translateToEnglish deepl [] = ([], Inr []) \<and>
   (isBareUrl original \<longrightarrow> translateToEnglish deepl original = ([], Inr original)) \<and>
   (isBareUrl (trim original) \<longrightarrow> translateToEnglish deepl original = ([], Inr (trim original))) \<and>
   (trim original \<noteq> [] \<and> \<not> isBareUrl (trim original) \<and> deepl = None \<longrightarrow>
      translateToEnglish deepl original = ([LogDeeplKeyMissing], Inr (trim original))) \<and>
   (\<forall>translateText err.
      trim original \<noteq> [] \<and> \<not> isBareUrl (trim original) \<and> deepl = Some translateText \<and>
      translateText (trim original) = Inl err \<longrightarrow>
      translateToEnglish deepl original =
        ([TranslateText (trim original), ErrTranslateFailed err], Inr (trim original))) \<and>
   (LogDeeplKeyMissing \<in> set (fst (translateToEnglish deepl original)) \<longleftrightarrow>
      trim original \<noteq> [] \<and> \<not> isBareUrl (trim original) \<and> deepl = None) \<and>
   ((\<exists>t. TranslateText t \<in> set (fst (translateToEnglish deepl original))) \<longleftrightarrow>
      trim original \<noteq> [] \<and> \<not> isBareUrl (trim original) \<and> deepl \<noteq> None) \<and>
   (\<forall>t. TranslateText t \<in> set (fst (translateToEnglish deepl original)) \<longrightarrow> t = trim original)"
proof -
  have 1: "\<exists>evs s. translateToEnglish deepl original = (evs, Inr s)"
    by (simp add: translateToEnglish_def Let_def split: option.splits sum.splits)
  have 2: "trim original = [] \<longrightarrow> translateToEnglish deepl original = ([], Inr [])"
    by (simp add: translateToEnglish_def)
  have 3: "translateToEnglish deepl [] = ([], Inr [])"
    by (simp add: translateToEnglish_def trim_def)
  have 4: "isBareUrl original \<longrightarrow> translateToEnglish deepl original = ([], Inr original)"
    using isBareUrl_trim[of original] isBareUrl_nonempty[of original]
    by (auto simp add: translateToEnglish_def)
  have 5: "isBareUrl (trim original) \<longrightarrow> translateToEnglish deepl original = ([], Inr (trim original))"
    using isBareUrl_nonempty[of "trim original"]
    by (auto simp add: translateToEnglish_def)
  have 6: "trim original \<noteq> [] \<and> \<not> isBareUrl (trim original) \<and> deepl = None \<longrightarrow>
      translateToEnglish deepl original = ([LogDeeplKeyMissing], Inr (trim original))"
    by (simp add: translateToEnglish_def)
  have 7: "\<forall>translateText err.
      trim original \<noteq> [] \<and> \<not> isBareUrl (trim original) \<and> deepl = Some translateText \<and>
      translateText (trim original) = Inl err \<longrightarrow>
      translateToEnglish deepl original =
        ([TranslateText (trim original), ErrTranslateFailed err], Inr (trim original))"
    by (simp add: translateToEnglish_def Let_def)
  have 8: "LogDeeplKeyMissing \<in> set (fst (translateToEnglish deepl original)) \<longleftrightarrow>
      trim original \<noteq> [] \<and> \<not> isBareUrl (trim original) \<and> deepl = None"
    by (simp add: translateToEnglish_def Let_def split: option.splits sum.splits)
  have 9: "(\<exists>t. TranslateText t \<in> set (fst (translateToEnglish deepl original))) \<longleftrightarrow>
      trim original \<noteq> [] \<and> \<not> isBareUrl (trim original) \<and> deepl \<noteq> None"
    by (auto simp add: translateToEnglish_def Let_def split: option.splits sum.splits)
  have 10: "\<forall>t. TranslateText t \<in> set (fst (translateToEnglish deepl original)) \<longrightarrow> t = trim original"
    by (auto simp add: translateToEnglish_def Let_def split: option.splits sum.splits if_splits)
  from 1 2 3 4 5 6 7 8 9 10 show ?thesis by blast
qed

lemma ex_trims:
  "trim (js ''  '') = []" "trim (js ''https://example.com/x'') = (js ''https://example.com/x'')"
  "trim (js '' hola mundo '') = (js ''hola mundo'')"
  "trim (js '' https://example.com/x '') = (js ''https://example.com/x'')"
  by (simp_all add: trim_def isWhiteSpace_def js_def)

lemma ex_urls:
  "isBareUrl (js ''https://example.com/x'')" "\<not> isBareUrl (js ''hola mundo'')"
  by (simp_all add: isBareUrl_def ci_def url_tail_def isWhiteSpace_def js_def)

text \<open>
  The adapter on white space, on a bare URL, on a padded URL without provider, and on a
  padded sentence without provider and with a provider that throws.
\<close>

theorem translateToEnglish_trimmed_witness:
  "trim (js ''  '') = [] \<and> translateToEnglish None (js ''  '') = ([], Inr []) \<and>
   isBareUrl (js ''https://example.com/x'') \<and>
   translateToEnglish (Some failing_provider) (js ''https://example.com/x'') = ([], Inr (js ''https://example.com/x'')) \<and>
   isBareUrl (trim (js '' https://example.com/x '')) \<and>
   translateToEnglish None (js '' https://example.com/x '') = ([], Inr (js ''https://example.com/x'')) \<and>
   LogDeeplKeyMissing \<notin> set (fst (translateToEnglish None (js '' https://example.com/x ''))) \<and>
   trim (js '' hola mundo '') \<noteq> [] \<and> \<not> isBareUrl (trim (js '' hola mundo '')) \<and>
   translateToEnglish None (js '' hola mundo '') = ([LogDeeplKeyMissing], Inr (js ''hola mundo'')) \<and>
   failing_provider (trim (js '' hola mundo '')) = Inl (Thrown ''quota exceeded'') \<and>
   translateToEnglish (Some failing_provider) (js '' hola mundo '') =
     ([TranslateText (js ''hola mundo''), ErrTranslateFailed (Thrown ''quota exceeded'')], Inr (js ''hola mundo''))"
proof -
  have a: "translateToEnglish None (js ''  '') = ([], Inr [])"
    using translateToEnglish_trimmed[of None "(js ''  '')"] ex_trims(1) by blast
  have b: "translateToEnglish (Some failing_provider) (js ''https://example.com/x'') = ([], Inr (js ''https://example.com/x''))"
    using translateToEnglish_trimmed[of "Some failing_provider" "(js ''https://example.com/x'')"] ex_urls(1) by blast
  have pu: "isBareUrl (trim (js '' https://example.com/x ''))"
    using ex_urls(1) by (simp add: ex_trims)
  have p: "translateToEnglish None (js '' https://example.com/x '') = ([], Inr (js ''https://example.com/x''))"
    using translateToEnglish_trimmed[of None "(js '' https://example.com/x '')"] pu ex_trims(4) by metis
  have q: "LogDeeplKeyMissing \<notin> set (fst (translateToEnglish None (js '' https://example.com/x '')))"
    using translateToEnglish_trimmed[of None "(js '' https://example.com/x '')"] pu by blast
  have ne: "trim (js '' hola mundo '') \<noteq> []" "\<not> isBareUrl (trim (js '' hola mundo ''))"
    using ex_urls(2) by (simp_all add: ex_trims)
  have c: "translateToEnglish None (js '' hola mundo '') = ([LogDeeplKeyMissing], Inr (js ''hola mundo''))"
    using translateToEnglish_trimmed[of None "(js '' hola mundo '')"] ne ex_trims(3) by metis
  have f: "failing_provider (trim (js '' hola mundo '')) = Inl (Thrown ''quota exceeded'')"
    by (simp add: failing_provider_def)
  have d: "translateToEnglish (Some failing_provider) (js '' hola mundo '') =
     ([TranslateText (js ''hola mundo''), ErrTranslateFailed (Thrown ''quota exceeded'')], Inr (js ''hola mundo''))"
    using translateToEnglish_trimmed[of "Some failing_provider" "(js '' hola mundo '')"] ne f ex_trims(3) by metis
  from a b pu p q c d f ne ex_trims(1) ex_urls(1) show ?thesis by blast
qed

text \<open>
  Without provider, and with a provider that throws, a padded input does not come back
  unchanged: the white space at its ends is gone.
\<close>

theorem translateToEnglish_unchanged_counterexample:
  "translateToEnglish None (js '' hola mundo '') = ([LogDeeplKeyMissing], Inr (js ''hola mundo'')) \<and>
   translateToEnglish (Some failing_provider) (js '' hola mundo '') =
     ([TranslateText (js ''hola mundo''), ErrTranslateFailed (Thrown ''quota exceeded'')], Inr (js ''hola mundo'')) \<and>
   (js ''hola mundo'') \<noteq> (js '' hola mundo '')"
  by (simp add: translateToEnglish_def trim_def isWhiteSpace_def isBareUrl_def ci_def
      url_tail_def failing_provider_def Let_def js_def)

text \<open>
  Claim C10. For every non-empty input text that does not match the URL pattern: when a
  provider is configured, the adapter calls it, and the call succeeds with a result that
  carries no text (no result, an absent text or an empty one), the adapter returns the
  empty string, which is not the input text.
\<close>

theorem translateToEnglish_textless:
  assumes "original \<noteq> []" and "\<not> isBareUrl original"
    and "translateToEnglish (Some translateText) original = (evs, r)"
    and "TranslateText x \<in> set evs"
    and "translateText x = Inr res"
    and "res = None \<or> (\<exists>tr. res = Some tr \<and> (result_text tr = None \<or> result_text tr = Some []))"
  shows "r = Inr [] \<and> r \<noteq> Inr original"
proof -
  have x: "x = trim original"
    using assms(3,4) by (auto simp: translateToEnglish_def Let_def split: if_splits sum.splits)
  have "r = Inr []"
    using assms(3,4,5,6) unfolding x
    by (auto simp: translateToEnglish_def Let_def split: if_splits)
  with assms(1) show ?thesis by simp
qed

text \<open>
  A provider whose result has no text, called on a sentence.
\<close>

theorem translateToEnglish_textless_witness:
  "(js ''hola mundo'') \<noteq> [] \<and> \<not> isBareUrl (js ''hola mundo'') \<and>
   translateToEnglish (Some textless_provider) (js ''hola mundo'') = ([TranslateText (js ''hola mundo'')], Inr []) \<and>
   textless_provider (js ''hola mundo'') = Inr (Some \<lparr>result_text = None\<rparr>) \<and>
   (Inr [] :: exn + jsstring) \<noteq> Inr (js ''hola mundo'')"
proof -
  have run: "translateToEnglish (Some textless_provider) (js ''hola mundo'') = ([TranslateText (js ''hola mundo'')], Inr [])"
    by (simp add: translateToEnglish_def trim_def isWhiteSpace_def isBareUrl_def ci_def
        url_tail_def textless_provider_def Let_def js_def)
  have p: "textless_provider (js ''hola mundo'') = Inr (Some \<lparr>result_text = None\<rparr>)"
    by (simp add: textless_provider_def)
  have "(Inr [] :: exn + jsstring) = Inr [] \<and> (Inr [] :: exn + jsstring) \<noteq> Inr (js ''hola mundo'')"
    using translateToEnglish_textless[OF _ ex_urls(2) run _ p] by simp
  with run p ex_urls(2) show ?thesis by simp
qed


section \<open>Fetching the latest item\<close>

lemma pickLatest_Some_extract:
  "pickLatestByStatusId items = Inr (Some (it, d)) \<Longrightarrow>
   it \<in> set items \<and> extractTweetIdFromLink (link it) = Some d"
  using pickLatest_spec[of items] by auto

lemma fetch_Some_cases:
  assumes "fetchLatestTweet E u = Inr (Some t)"
  shows "\<exists>items it d. parseFeed E u = Inr (Some items) \<and>
           pickLatestByStatusId items = Inr (Some (it, d)) \<and>
           username t = u \<and> tweet_id t = d \<and>
           url t = (js ''https://x.com/'') @ u @ (js ''/status/'') @ d \<and>
           originalText t = extractOriginalText it"
  using assms
  by (auto simp: fetchLatestTweet_def Let_def split: sum.splits option.splits if_splits)

lemma fetch_numeral:
  assumes "fetchLatestTweet E u = Inr (Some t)"
  shows "tweet_id t \<noteq> [] \<and> list_all isDigit (tweet_id t) \<and> username t = u \<and>
         BigInt (tweet_id t) = Inr (decimal (tweet_id t))"
proof -
  from fetch_Some_cases[OF assms] obtain items it d where
    "pickLatestByStatusId items = Inr (Some (it, d))" "username t = u" "tweet_id t = d"
    by blast
  with pickLatest_Some_extract[of items it d] extract_is_numeral[of "link it" d]
  show ?thesis by (simp add: BigInt_def)
qed

text \<open>
  Claim C9. For every identity \<open>u\<close> and every feed read for it in which the selector
  picks an item with identifier \<open>d\<close>, the fetch succeeds and the address of its result
  is \<^verbatim>\<open>https://x.com/\<close>, \<open>u\<close>, \<^verbatim>\<open>/status/\<close> and \<open>d\<close>, whatever the link of the item is
  beyond the identifier extracted from it.
\<close>

theorem fetchLatestTweet_url:
  assumes "parseFeed E u = Inr (Some items)"
    and "pickLatestByStatusId items = Inr (Some (it, d))"
  shows "\<exists>t. fetchLatestTweet E u = Inr (Some t) \<and> tweet_id t = d \<and>
           extractTweetIdFromLink (link it) = Some d \<and>
           url t = (js ''https://x.com/'') @ u @ (js ''/status/'') @ d"
proof -
  have "items \<noteq> []" using assms(2) by (auto simp: pickLatestByStatusId_def)
  then show ?thesis
    using assms pickLatest_Some_extract[OF assms(2)]
    by (simp add: fetchLatestTweet_def Let_def)
qed

lemma ex_pick_jane:
  "pickLatestByStatusId [ex_feed_item (js ''https://nitter.example/someone_else/status/42#m'') (js ''RT by @jane: hi'')]
     = Inr (Some (ex_feed_item (js ''https://nitter.example/someone_else/status/42#m'') (js ''RT by @jane: hi''), (js ''42'')))"
  by (simp add: pickLatestByStatusId_def extractTweetIdFromLink_def status_here_def isDigit_def
      falsy_def ex_feed_item_def js_def)

lemma ex_jane_fields:
  "extractOriginalText (ex_feed_item l (js ''RT by @jane: hi'')) = (js ''hi'')"
  "isoDate (ex_feed_item l t) = None" "pubDate (ex_feed_item l t) = None"
  by (simp_all add: extractOriginalText_def ex_feed_item_def trim_def isWhiteSpace_def js_def)

text \<open>
  The feed of \<open>jane\<close> holds an item whose link points to another host and another
  account.
\<close>

theorem fetchLatestTweet_url_witness:
  "parseFeed (ex_env ex_feed_jane) (js ''jane'') =
     Inr (Some [ex_feed_item (js ''https://nitter.example/someone_else/status/42#m'') (js ''RT by @jane: hi'')]) \<and>
   fetchLatestTweet (ex_env ex_feed_jane) (js ''jane'') =
     Inr (Some \<lparr>username = (js ''jane''), tweet_id = (js ''42''), url = (js ''https://x.com/jane/status/42''),
                originalText = (js ''hi''), publishedAt = None\<rparr>)"
proof -
  have p: "parseFeed (ex_env ex_feed_jane) (js ''jane'') =
     Inr (Some [ex_feed_item (js ''https://nitter.example/someone_else/status/42#m'') (js ''RT by @jane: hi'')])"
    by (simp add: ex_env_def ex_feed_jane_def)
  from fetchLatestTweet_url[OF p ex_pick_jane] obtain t where
    t: "fetchLatestTweet (ex_env ex_feed_jane) (js ''jane'') = Inr (Some t)"
       "url t = (js ''https://x.com/'') @ (js ''jane'') @ (js ''/status/'') @ (js ''42'')"
    by blast
  have "fetchLatestTweet (ex_env ex_feed_jane) (js ''jane'') =
     Inr (Some \<lparr>username = (js ''jane''), tweet_id = (js ''42''), url = (js ''https://x.com/jane/status/42''),
                originalText = (js ''hi''), publishedAt = None\<rparr>)"
    using t by (simp add: fetchLatestTweet_def Let_def p ex_pick_jane ex_jane_fields falsy_def js_append)
  with p show ?thesis by simp
qed


section \<open>The loop of a tick\<close>

lemma emit_simp: "emit evs (seen, evs', x) = (seen, evs @ evs', x)"
  by (simp add: emit_def)

lemma emit_parts:
  "fst (emit evs r) = fst r" "fst (snd (emit evs r)) = evs @ fst (snd r)"
  "snd (snd (emit evs r)) = snd (snd r)"
  by (cases r, simp add: emit_def)+

lemma fetches_simps:
  "fetches [] = []" "fetches (FetchFeed u # evs) = u # fetches evs"
  "fetches (ErrFetchFailed v e # evs) = fetches evs"
  "fetches (evs @ evs') = fetches evs @ fetches evs'"
  by (simp_all add: fetches_def)

lemma deliveries_simps:
  "deliveries [] = []" "deliveries (FetchFeed u # evs) = deliveries evs"
  "deliveries (ErrFetchFailed v e # evs) = deliveries evs"
  "deliveries (NotifyGuild g t # evs) = (g, t) # deliveries evs"
  "deliveries (evs @ evs') = deliveries evs @ deliveries evs'"
  by (simp_all add: deliveries_def)

lemma candidate_SomeD:
  "candidate E seen u = Some l \<Longrightarrow>
   fetchLatestTweet E u = Inr (Some l) \<and> originalText l \<noteq> [] \<and>
   Some (tweet_id l) \<noteq> lastIdOf seen u"
  by (auto simp: candidate_def split: sum.splits option.splits if_splits)

lemma candidate_numeral:
  "candidate E seen u = Some l \<Longrightarrow>
   tweet_id l \<noteq> [] \<and> username l = u \<and> BigInt (tweet_id l) = Inr (decimal (tweet_id l))"
  using candidate_SomeD[of E seen u l] fetch_numeral[of E u l] by simp

lemma lastIdOf_other: "v \<noteq> u \<Longrightarrow> lastIdOf (seen(u := x)) v = lastIdOf seen v"
  by (simp add: lastIdOf_def)

lemma lastIdOf_recorded: "d \<noteq> [] \<Longrightarrow> lastIdOf (seen(u := Some (Some d))) u = Some d"
  by (simp add: lastIdOf_def)

lemma candidate_other:
  "v \<noteq> u \<Longrightarrow> candidate E (seen(u := x)) v = candidate E seen v"
  by (simp add: candidate_def lastIdOf_other split: sum.splits option.splits)

lemma candidate_recorded:
  "candidate E seen u = Some l \<Longrightarrow> candidate E (seen(u := Some (Some (tweet_id l)))) u = None"
  using candidate_SomeD[of E seen u l] candidate_numeral[of E seen u l]
  by (simp add: candidate_def lastIdOf_recorded)

lemma poll_loop_skip:
  assumes "candidate E seen u = None"
  shows "\<exists>evs0. poll_loop E (u # us) seen best = emit evs0 (poll_loop E us seen best) \<and>
           fetches evs0 = [u] \<and> deliveries evs0 = []"
proof (cases "fetchLatestTweet E u")
  case (Inl err)
  then have "poll_loop E (u # us) seen best =
      emit [FetchFeed u, ErrFetchFailed u err] (poll_loop E us seen best)" by simp
  then show ?thesis by (auto simp: fetches_simps deliveries_simps)
next
  case (Inr latest)
  have "poll_loop E (u # us) seen best = emit [FetchFeed u] (poll_loop E us seen best)"
    using Inr assms by (auto simp: candidate_def split: option.splits if_splits)
  then show ?thesis by (auto simp: fetches_simps deliveries_simps)
qed

lemma poll_loop_take:
  assumes "candidate E seen u = Some l"
    and "\<forall>b. best = Some b \<longrightarrow> BigInt (tweet_id b) = Inr (decimal (tweet_id b))"
  shows "poll_loop E (u # us) seen best =
           emit [FetchFeed u]
             (poll_loop E us (seen(u := Some (Some (tweet_id l))))
                (case best of
                   None \<Rightarrow> Some l
                 | Some b \<Rightarrow> if decimal (tweet_id b) < decimal (tweet_id l) then Some l else Some b))"
  using candidate_SomeD[OF assms(1)] candidate_numeral[OF assms(1)] assms(2)
  by (cases best) (simp_all add: Let_def)

lemma advance_seen_skip:
  "candidate E seen u = None \<Longrightarrow> advance_seen E (u # us) seen = advance_seen E us seen"
  by (auto simp: advance_seen_def fun_eq_iff)

lemma advance_seen_take:
  assumes c: "candidate E seen u = Some l"
  shows "advance_seen E us (seen(u := Some (Some (tweet_id l)))) = advance_seen E (u # us) seen"
proof
  fix v
  show "advance_seen E us (seen(u := Some (Some (tweet_id l)))) v = advance_seen E (u # us) seen v"
  proof (cases "v = u")
    case True
    then show ?thesis using c candidate_recorded[OF c] by (simp add: advance_seen_def)
  next
    case False
    then show ?thesis by (simp add: advance_seen_def candidate_other split: option.splits)
  qed
qed


lemma poll_loop_state:
  assumes "\<forall>b. best = Some b \<longrightarrow> BigInt (tweet_id b) = Inr (decimal (tweet_id b))"
  shows "fst (poll_loop E us seen best) = advance_seen E us seen"
  using assms
proof (induction us arbitrary: seen best)
  case Nil
  then show ?case by (simp add: advance_seen_def)
next
  case (Cons u us)
  show ?case
  proof (cases "candidate E seen u")
    case None
    from poll_loop_skip[OF None, of us best] obtain evs0 where
      step: "poll_loop E (u # us) seen best = emit evs0 (poll_loop E us seen best)" by blast
    show ?thesis
      unfolding step using Cons.IH[OF Cons.prems, of seen]
      by (simp add: emit_parts advance_seen_skip[OF None])
  next
    case (Some l)
    let ?seen1 = "seen(u := Some (Some (tweet_id l)))"
    let ?best1 = "case best of None \<Rightarrow> Some l
                 | Some b \<Rightarrow> if decimal (tweet_id b) < decimal (tweet_id l) then Some l else Some b"
    have inv1: "\<forall>b. ?best1 = Some b \<longrightarrow> BigInt (tweet_id b) = Inr (decimal (tweet_id b))"
      using Cons.prems candidate_numeral[OF Some] by (auto split: option.splits if_splits)
    have "fst (poll_loop E (u # us) seen best) = fst (poll_loop E us ?seen1 ?best1)"
      unfolding poll_loop_take[OF Some Cons.prems] by (simp only: emit_parts)
    also have "\<dots> = advance_seen E us ?seen1" by (rule Cons.IH[OF inv1])
    also have "\<dots> = advance_seen E (u # us) seen" by (rule advance_seen_take[OF Some])
    finally show ?thesis .
  qed
qed

lemma poll_loop_events:
  assumes "\<forall>b. best = Some b \<longrightarrow> BigInt (tweet_id b) = Inr (decimal (tweet_id b))"
  shows "fetches (fst (snd (poll_loop E us seen best))) = us \<and>
         deliveries (fst (snd (poll_loop E us seen best))) = []"
  using assms
proof (induction us arbitrary: seen best)
  case Nil
  then show ?case by (simp add: fetches_simps deliveries_simps)
next
  case (Cons u us)
  show ?case
  proof (cases "candidate E seen u")
    case None
    from poll_loop_skip[OF None, of us best] obtain evs0 where
      step: "poll_loop E (u # us) seen best = emit evs0 (poll_loop E us seen best)"
      and ev0: "fetches evs0 = [u]" "deliveries evs0 = []" by blast
    show ?thesis
      unfolding step using Cons.IH[OF Cons.prems, of seen] ev0
      by (simp add: emit_parts fetches_simps deliveries_simps)
  next
    case (Some l)
    let ?seen1 = "seen(u := Some (Some (tweet_id l)))"
    let ?best1 = "case best of None \<Rightarrow> Some l
                 | Some b \<Rightarrow> if decimal (tweet_id b) < decimal (tweet_id l) then Some l else Some b"
    have inv1: "\<forall>b. ?best1 = Some b \<longrightarrow> BigInt (tweet_id b) = Inr (decimal (tweet_id b))"
      using Cons.prems candidate_numeral[OF Some] by (auto split: option.splits if_splits)
    have ev: "fst (snd (poll_loop E (u # us) seen best)) =
        [FetchFeed u] @ fst (snd (poll_loop E us ?seen1 ?best1))"
      unfolding poll_loop_take[OF Some Cons.prems] by (simp only: emit_parts)
    have ih: "fetches (fst (snd (poll_loop E us ?seen1 ?best1))) = us"
      "deliveries (fst (snd (poll_loop E us ?seen1 ?best1))) = []"
      using Cons.IH[OF inv1] by blast+
    show ?thesis unfolding ev fetches_simps deliveries_simps ih by simp
  qed
qed

lemma poll_loop_result:
  assumes "\<forall>b. best = Some b \<longrightarrow> BigInt (tweet_id b) = Inr (decimal (tweet_id b))"
  shows "\<exists>best'. snd (snd (poll_loop E us seen best)) = Inr best' \<and>
           (best' = best \<or> (\<exists>v\<in>set us. candidate E seen v = best' \<and> best' \<noteq> None)) \<and>
           (\<forall>b. best = Some b \<longrightarrow>
              (\<exists>b'. best' = Some b' \<and> decimal (tweet_id b) \<le> decimal (tweet_id b'))) \<and>
           (\<forall>v\<in>set us. \<forall>l. candidate E seen v = Some l \<longrightarrow>
              (\<exists>b'. best' = Some b' \<and> decimal (tweet_id l) \<le> decimal (tweet_id b')))"
  using assms
proof (induction us arbitrary: seen best)
  case Nil
  then show ?case by simp
next
  case (Cons u us)
  show ?case
  proof (cases "candidate E seen u")
    case None
    from poll_loop_skip[OF None, of us best] obtain evs0 where
      step: "poll_loop E (u # us) seen best = emit evs0 (poll_loop E us seen best)" by blast
    have res: "snd (snd (poll_loop E (u # us) seen best)) = snd (snd (poll_loop E us seen best))"
      unfolding step by (simp add: emit_parts)
    from Cons.IH[OF Cons.prems, of seen] obtain best' where
      run: "snd (snd (poll_loop E us seen best)) = Inr best'"
      and src: "best' = best \<or> (\<exists>v\<in>set us. candidate E seen v = best' \<and> best' \<noteq> None)"
      and ge: "\<forall>b. best = Some b \<longrightarrow>
              (\<exists>b'. best' = Some b' \<and> decimal (tweet_id b) \<le> decimal (tweet_id b'))"
      and mx: "\<forall>v\<in>set us. \<forall>l. candidate E seen v = Some l \<longrightarrow>
              (\<exists>b'. best' = Some b' \<and> decimal (tweet_id l) \<le> decimal (tweet_id b'))"
      by blast
    have src': "best' = best \<or> (\<exists>v\<in>set (u # us). candidate E seen v = best' \<and> best' \<noteq> None)"
      using src by auto
    have mx': "\<forall>v\<in>set (u # us). \<forall>l. candidate E seen v = Some l \<longrightarrow>
              (\<exists>b'. best' = Some b' \<and> decimal (tweet_id l) \<le> decimal (tweet_id b'))"
      using mx None by auto
    from run res src' ge mx' show ?thesis by simp
  next
    case (Some l)
    let ?seen1 = "seen(u := Some (Some (tweet_id l)))"
    let ?best1 = "case best of None \<Rightarrow> Some l
                 | Some b \<Rightarrow> if decimal (tweet_id b) < decimal (tweet_id l) then Some l else Some b"
    have res: "snd (snd (poll_loop E (u # us) seen best)) = snd (snd (poll_loop E us ?seen1 ?best1))"
      unfolding poll_loop_take[OF Some Cons.prems] by (simp only: emit_parts)
    have inv1: "\<forall>b. ?best1 = Some b \<longrightarrow> BigInt (tweet_id b) = Inr (decimal (tweet_id b))"
      using Cons.prems candidate_numeral[OF Some] by (auto split: option.splits if_splits)
    have l1: "\<exists>b1. ?best1 = Some b1 \<and> decimal (tweet_id l) \<le> decimal (tweet_id b1)"
      by (auto split: option.splits)
    have b1: "\<forall>b. best = Some b \<longrightarrow> (\<exists>b1. ?best1 = Some b1 \<and> decimal (tweet_id b) \<le> decimal (tweet_id b1))"
      by (auto split: option.splits)
    have s1: "?best1 = best \<or> ?best1 = Some l"
      by (auto split: option.splits)
    from Cons.IH[OF inv1, of ?seen1] obtain best' where
      run: "snd (snd (poll_loop E us ?seen1 ?best1)) = Inr best'"
      and src: "best' = ?best1 \<or> (\<exists>v\<in>set us. candidate E ?seen1 v = best' \<and> best' \<noteq> None)"
      and ge: "\<forall>b. ?best1 = Some b \<longrightarrow>
              (\<exists>b'. best' = Some b' \<and> decimal (tweet_id b) \<le> decimal (tweet_id b'))"
      and mx: "\<forall>v\<in>set us. \<forall>l. candidate E ?seen1 v = Some l \<longrightarrow>
              (\<exists>b'. best' = Some b' \<and> decimal (tweet_id l) \<le> decimal (tweet_id b'))"
      by blast
    have cand1: "\<And>v. candidate E ?seen1 v \<noteq> None \<Longrightarrow> v \<noteq> u \<and> candidate E ?seen1 v = candidate E seen v"
      using candidate_recorded[OF Some] candidate_other[of _ u E seen] by metis
    have src': "best' = best \<or> (\<exists>v\<in>set (u # us). candidate E seen v = best' \<and> best' \<noteq> None)"
    proof (rule disjE[OF src])
      assume "best' = ?best1"
      with s1 Some show ?thesis by auto
    next
      assume "\<exists>v\<in>set us. candidate E ?seen1 v = best' \<and> best' \<noteq> None"
      then obtain v where "v \<in> set us" "candidate E ?seen1 v = best'" "best' \<noteq> None" by blast
      with cand1[of v] show ?thesis by auto
    qed
    have ge': "\<forall>b. best = Some b \<longrightarrow>
              (\<exists>b'. best' = Some b' \<and> decimal (tweet_id b) \<le> decimal (tweet_id b'))"
    proof (intro allI impI)
      fix b assume "best = Some b"
      with b1 obtain b1' where "?best1 = Some b1'" "decimal (tweet_id b) \<le> decimal (tweet_id b1')" by blast
      moreover from ge this(1) obtain b' where "best' = Some b'" "decimal (tweet_id b1') \<le> decimal (tweet_id b')" by blast
      ultimately show "\<exists>b'. best' = Some b' \<and> decimal (tweet_id b) \<le> decimal (tweet_id b')" by auto
    qed
    have lge: "\<exists>b'. best' = Some b' \<and> decimal (tweet_id l) \<le> decimal (tweet_id b')"
    proof -
      from l1 obtain b1' where "?best1 = Some b1'" "decimal (tweet_id l) \<le> decimal (tweet_id b1')" by blast
      moreover from ge this(1) obtain b' where "best' = Some b'" "decimal (tweet_id b1') \<le> decimal (tweet_id b')" by blast
      ultimately show ?thesis by auto
    qed
    have mx': "\<forall>v\<in>set (u # us). \<forall>l. candidate E seen v = Some l \<longrightarrow>
              (\<exists>b'. best' = Some b' \<and> decimal (tweet_id l) \<le> decimal (tweet_id b'))"
    proof (intro ballI allI impI)
      fix v l' assume v: "v \<in> set (u # us)" and c: "candidate E seen v = Some l'"
      show "\<exists>b'. best' = Some b' \<and> decimal (tweet_id l') \<le> decimal (tweet_id b')"
      proof (cases "v = u")
        case True
        with c Some have "l' = l" by simp
        with lge show ?thesis by simp
      next
        case False
        with v have "v \<in> set us" by simp
        moreover have "candidate E ?seen1 v = Some l'" using c False by (simp add: candidate_other)
        ultimately show ?thesis using mx by blast
      qed
    qed
    from run res src' ge' mx' show ?thesis by simp
  qed
qed


lemma translate_total:
  "\<exists>tevs s. translateToEnglish d t = (tevs, Inr s) \<and> fetches tevs = [] \<and> deliveries tevs = []"
  by (simp add: translateToEnglish_def Let_def fetches_def deliveries_def
      split: option.splits sum.splits)

lemma pollOnce_spec:
  "\<exists>pevs. fetches pevs = us \<and> deliveries pevs = [] \<and>
     (((\<forall>v\<in>set us. candidate E seen v = None) \<and>
       pollOnce E us seen = (advance_seen E us seen, pevs, Inr None)) \<or>
      (\<exists>w\<in>set us. \<exists>l tevs english.
         candidate E seen w = Some l \<and>
         (\<forall>v\<in>set us. \<forall>l'. candidate E seen v = Some l' \<longrightarrow>
            decimal (tweet_id l') \<le> decimal (tweet_id l)) \<and>
         translateToEnglish (deeplTranslator E) (originalText l) = (tevs, Inr english) \<and>
         fetches tevs = [] \<and> deliveries tevs = [] \<and>
         pollOnce E us seen =
           (advance_seen E us seen, pevs @ tevs, Inr (Some (notification l english)))))"
proof -
  let ?r = "poll_loop E us seen None"
  have inv: "\<forall>b. (None :: latest_tweet option) = Some b \<longrightarrow> BigInt (tweet_id b) = Inr (decimal (tweet_id b))"
    by simp
  have st: "fst ?r = advance_seen E us seen" by (rule poll_loop_state[OF inv])
  from poll_loop_result[OF inv, of E us seen] obtain best' where
    res: "snd (snd ?r) = Inr best'"
    and src: "best' = None \<or> (\<exists>v\<in>set us. candidate E seen v = best' \<and> best' \<noteq> None)"
    and mx: "\<forall>v\<in>set us. \<forall>l. candidate E seen v = Some l \<longrightarrow>
              (\<exists>b'. best' = Some b' \<and> decimal (tweet_id l) \<le> decimal (tweet_id b'))"
    by blast
  obtain pevs where pevs: "pevs = fst (snd ?r)" by simp
  have run: "?r = (advance_seen E us seen, pevs, Inr best')"
    unfolding pevs using st res by (metis prod.collapse)
  have ev: "fetches pevs = us" "deliveries pevs = []"
    using poll_loop_events[OF inv, of E us seen] pevs by blast+
  show ?thesis
  proof (cases best')
    case None
    have none: "\<forall>v\<in>set us. candidate E seen v = None"
      using mx None by (metis option.distinct(1) option.exhaust)
    have "pollOnce E us seen = (advance_seen E us seen, pevs, Inr None)"
      using run None by (simp add: pollOnce_def)
    with none ev show ?thesis by blast
  next
    case (Some l)
    from src Some obtain w where w: "w \<in> set us" "candidate E seen w = Some l" by auto
    have mx': "\<forall>v\<in>set us. \<forall>l'. candidate E seen v = Some l' \<longrightarrow>
            decimal (tweet_id l') \<le> decimal (tweet_id l)"
      using mx Some by auto
    from translate_total[of "deeplTranslator E" "originalText l"] obtain tevs english where
      tr: "translateToEnglish (deeplTranslator E) (originalText l) = (tevs, Inr english)"
      "fetches tevs = []" "deliveries tevs = []" by blast
    have "pollOnce E us seen =
           (advance_seen E us seen, pevs @ tevs, Inr (Some (notification l english)))"
      using run Some tr(1) by (simp add: pollOnce_def notification_def)
    with w mx' tr ev show ?thesis by blast
  qed
qed

lemma notify_loop_events:
  "fst (notify_loop E gm tw) =
     map (\<lambda>g. NotifyGuild g tw)
       (upto_first_throw (\<lambda>g. notifyGuild E g tw \<noteq> None) (subscribers gm (username tw)))"
proof (induction gm)
  case Nil
  then show ?case by (simp add: subscribers_def)
next
  case (Cons ga gm)
  obtain g accounts where ga: "ga = (g, accounts)" by (cases ga)
  show ?case
    using Cons.IH unfolding ga
    by (auto simp: subscribers_def split: option.splits prod.splits)
qed

lemma notify_loop_ok:
  "snd (notify_loop E gm tw) = None \<longleftrightarrow>
     (\<forall>g\<in>set (subscribers gm (username tw)). notifyGuild E g tw = None)"
proof (induction gm)
  case Nil
  then show ?case by (simp add: subscribers_def)
next
  case (Cons ga gm)
  obtain g accounts where ga: "ga = (g, accounts)" by (cases ga)
  show ?case
    using Cons.IH unfolding ga
    by (auto simp: subscribers_def split: option.splits prod.splits)
qed

lemma upto_first_throw_none:
  "\<forall>g\<in>set gs. \<not> throws g \<Longrightarrow> upto_first_throw throws gs = gs"
  by (induction gs) auto

lemma deliveries_notify:
  "deliveries (map (\<lambda>g. NotifyGuild g tw) gs) = map (\<lambda>g. (g, tw)) gs"
  by (induction gs) (simp_all add: deliveries_def)

lemma notify_fetches:
  "fetches (map (\<lambda>g. NotifyGuild g tw) gs) = []"
  by (induction gs) (simp_all add: fetches_def)

lemma tick_spec:
  assumes "getGuildState E = Inr st"
  shows "\<exists>evs. tick E seen = (advance_seen E (allUsernames st) seen, evs) \<and>
     fetches evs = allUsernames st \<and>
     (((\<forall>v\<in>set (allUsernames st). candidate E seen v = None) \<and> deliveries evs = []) \<or>
      (\<exists>w\<in>set (allUsernames st). \<exists>l tevs english.
         candidate E seen w = Some l \<and>
         (\<forall>v\<in>set (allUsernames st). \<forall>l'. candidate E seen v = Some l' \<longrightarrow>
            decimal (tweet_id l') \<le> decimal (tweet_id l)) \<and>
         translateToEnglish (deeplTranslator E) (originalText l) = (tevs, Inr english) \<and>
         deliveries evs =
           map (\<lambda>g. (g, notification l english))
             (upto_first_throw (\<lambda>g. notifyGuild E g (notification l english) \<noteq> None)
                (subscribers (guildMap st) w))))"
proof -
  let ?us = "allUsernames st"
  from pollOnce_spec[of ?us E seen] obtain pevs where
    pev: "fetches pevs = ?us" "deliveries pevs = []"
    and cases: "((\<forall>v\<in>set ?us. candidate E seen v = None) \<and>
       pollOnce E ?us seen = (advance_seen E ?us seen, pevs, Inr None)) \<or>
      (\<exists>w\<in>set ?us. \<exists>l tevs english.
         candidate E seen w = Some l \<and>
         (\<forall>v\<in>set ?us. \<forall>l'. candidate E seen v = Some l' \<longrightarrow>
            decimal (tweet_id l') \<le> decimal (tweet_id l)) \<and>
         translateToEnglish (deeplTranslator E) (originalText l) = (tevs, Inr english) \<and>
         fetches tevs = [] \<and> deliveries tevs = [] \<and>
         pollOnce E ?us seen =
           (advance_seen E ?us seen, pevs @ tevs, Inr (Some (notification l english))))"
    by blast
  from cases show ?thesis
  proof (rule disjE)
    assume a: "(\<forall>v\<in>set ?us. candidate E seen v = None) \<and>
       pollOnce E ?us seen = (advance_seen E ?us seen, pevs, Inr None)"
    then have "tick E seen = (advance_seen E ?us seen, pevs)"
      using assms by (simp add: tick_def)
    with a pev show ?thesis by blast
  next
    assume "\<exists>w\<in>set ?us. \<exists>l tevs english.
         candidate E seen w = Some l \<and>
         (\<forall>v\<in>set ?us. \<forall>l'. candidate E seen v = Some l' \<longrightarrow>
            decimal (tweet_id l') \<le> decimal (tweet_id l)) \<and>
         translateToEnglish (deeplTranslator E) (originalText l) = (tevs, Inr english) \<and>
         fetches tevs = [] \<and> deliveries tevs = [] \<and>
         pollOnce E ?us seen =
           (advance_seen E ?us seen, pevs @ tevs, Inr (Some (notification l english)))"
    then obtain w l tevs english where w: "w \<in> set ?us" "candidate E seen w = Some l"
      and mx: "\<forall>v\<in>set ?us. \<forall>l'. candidate E seen v = Some l' \<longrightarrow>
            decimal (tweet_id l') \<le> decimal (tweet_id l)"
      and tr: "translateToEnglish (deeplTranslator E) (originalText l) = (tevs, Inr english)"
        "fetches tevs = []" "deliveries tevs = []"
      and run: "pollOnce E ?us seen =
           (advance_seen E ?us seen, pevs @ tevs, Inr (Some (notification l english)))"
      by blast
    let ?tw = "notification l english"
    let ?gs = "upto_first_throw (\<lambda>g. notifyGuild E g ?tw \<noteq> None) (subscribers (guildMap st) w)"
    have uname: "username ?tw = w"
      using candidate_numeral[OF w(2)] by (simp add: notification_def)
    have nev: "fst (notify_loop E (guildMap st) ?tw) = map (\<lambda>g. NotifyGuild g ?tw) ?gs"
      using notify_loop_events[of E "guildMap st" ?tw] uname by simp
    obtain nevs r where nl: "notify_loop E (guildMap st) ?tw = (nevs, r)"
      by (cases "notify_loop E (guildMap st) ?tw")
    with nev have nevs: "nevs = map (\<lambda>g. NotifyGuild g ?tw) ?gs" by simp
    have "\<exists>errs. tick E seen = (advance_seen E ?us seen, pevs @ tevs @ nevs @ errs) \<and>
            fetches errs = [] \<and> deliveries errs = []"
      using assms run nl by (cases r) (simp_all add: tick_def fetches_def deliveries_def)
    then obtain errs where t: "tick E seen = (advance_seen E ?us seen, pevs @ tevs @ nevs @ errs)"
      and errs: "fetches errs = []" "deliveries errs = []" by blast
    have f: "fetches (pevs @ tevs @ nevs @ errs) = ?us"
      using pev tr errs by (simp add: fetches_simps nevs notify_fetches)
    have d: "deliveries (pevs @ tevs @ nevs @ errs) = map (\<lambda>g. (g, ?tw)) ?gs"
      using pev tr errs by (simp add: deliveries_simps nevs deliveries_notify)
    from t f d w mx tr(1) show ?thesis by blast
  qed
qed


section \<open>A worked tick\<close>

lemma ex_pick_A:
  "pickLatestByStatusId
     [ex_feed_item (js ''https://nitter.example/A/status/4#m'') (js ''A (@A): four''),
      ex_feed_item (js ''https://nitter.example/A/status/5#m'') (js ''A (@A): five'')]
   = Inr (Some (ex_feed_item (js ''https://nitter.example/A/status/5#m'') (js ''A (@A): five''), (js ''5'')))"
  by (simp add: pickLatestByStatusId_def extractTweetIdFromLink_def status_here_def isDigit_def
      falsy_def ex_feed_item_def BigInt_def decimal_def digitValue_def js_def)

lemma ex_pick_B:
  "pickLatestByStatusId [ex_feed_item (js ''https://nitter.example/B/status/10#m'') (js ''B (@B): ten'')]
   = Inr (Some (ex_feed_item (js ''https://nitter.example/B/status/10#m'') (js ''B (@B): ten''), (js ''10'')))"
  by (simp add: pickLatestByStatusId_def extractTweetIdFromLink_def status_here_def isDigit_def
      falsy_def ex_feed_item_def js_def)

lemma ex_texts:
  "extractOriginalText (ex_feed_item l (js ''A (@A): five'')) = (js ''five'')"
  "extractOriginalText (ex_feed_item l (js ''B (@B): ten'')) = (js ''ten'')"
  by (simp_all add: extractOriginalText_def ex_feed_item_def trim_def isWhiteSpace_def js_def)

lemma ex_fetch:
  "fetchLatestTweet (ex_world st th) (js ''A'') = Inr (Some ex_tweet_A)"
  "fetchLatestTweet (ex_world st th) (js ''B'') = Inr (Some ex_tweet_B)"
  "fetchLatestTweet (ex_world st th) (js ''C'') = Inl (Thrown ''timeout'')"
  by (simp_all add: fetchLatestTweet_def ex_world_def ex_feeds_def Let_def ex_pick_A ex_pick_B
      ex_texts ex_jane_fields falsy_def ex_tweet_A_def ex_tweet_B_def js_append)

lemma ex_translate:
  "translateToEnglish (deeplTranslator (ex_world st th)) (js ''five'') = ([LogDeeplKeyMissing], Inr (js ''five''))"
  "translateToEnglish (deeplTranslator (ex_world st th)) (js ''ten'') = ([LogDeeplKeyMissing], Inr (js ''ten''))"
  by (simp_all add: translateToEnglish_def ex_world_def trim_def isWhiteSpace_def isBareUrl_def
      ci_def url_tail_def Let_def js_def)

lemma ex_decimals:
  "BigInt (js ''5'') = Inr 5" "BigInt (js ''10'') = Inr 10" "decimal (js ''5'') = 5" "decimal (js ''10'') = 10"
  by (simp_all add: BigInt_def isDigit_def decimal_def digitValue_def js_def)

lemma ex_tweet_fields:
  "tweet_id ex_tweet_A = (js ''5'')" "tweet_id ex_tweet_B = (js ''10'')"
  "originalText ex_tweet_A = (js ''five'')" "originalText ex_tweet_B = (js ''ten'')"
  "username ex_tweet_A = (js ''A'')" "username ex_tweet_B = (js ''B'')"
  by (simp_all add: ex_tweet_A_def ex_tweet_B_def)

lemma ex_poll:
  "pollOnce (ex_world st th) [(js ''A''), (js ''B''), (js ''C'')] ex_seen =
     (ex_seen((js ''A'') := Some (Some (js ''5'')), (js ''B'') := Some (Some (js ''10''))),
      [FetchFeed (js ''A''), FetchFeed (js ''B''), FetchFeed (js ''C''), ErrFetchFailed (js ''C'') (Thrown ''timeout''),
       LogDeeplKeyMissing],
      Inr (Some (notification ex_tweet_B (js ''ten''))))"
proof -
  have last: "lastIdOf ex_seen (js ''A'') = Some (js ''3'')"
    "lastIdOf (ex_seen((js ''A'') := Some (Some (js ''5'')))) (js ''B'') = Some (js ''1'')"
    by (simp_all add: lastIdOf_def ex_seen_def)
  have loop: "poll_loop (ex_world st th) [(js ''A''), (js ''B''), (js ''C'')] ex_seen None =
     (ex_seen((js ''A'') := Some (Some (js ''5'')), (js ''B'') := Some (Some (js ''10''))),
      [FetchFeed (js ''A''), FetchFeed (js ''B''), FetchFeed (js ''C''), ErrFetchFailed (js ''C'') (Thrown ''timeout'')],
      Inr (Some ex_tweet_B))"
    by (simp add: ex_fetch ex_tweet_fields last ex_decimals emit_def Let_def)
  show ?thesis
    unfolding pollOnce_def loop by (simp add: ex_tweet_fields ex_translate notification_def)
qed

lemma ex_poll_ahead:
  "pollOnce (ex_world st th) [(js ''A'')] ex_seen_ahead =
     (ex_seen_ahead((js ''A'') := Some (Some (js ''5''))), [FetchFeed (js ''A''), LogDeeplKeyMissing],
      Inr (Some (notification ex_tweet_A (js ''five''))))"
proof -
  have last: "lastIdOf ex_seen_ahead (js ''A'') = Some (js ''10'')"
    by (simp add: lastIdOf_def ex_seen_ahead_def)
  have loop: "poll_loop (ex_world st th) [(js ''A'')] ex_seen_ahead None =
     (ex_seen_ahead((js ''A'') := Some (Some (js ''5''))), [FetchFeed (js ''A'')], Inr (Some ex_tweet_A))"
    by (simp add: ex_fetch ex_tweet_fields last emit_def Let_def)
  show ?thesis
    unfolding pollOnce_def loop by (simp add: ex_tweet_fields ex_translate notification_def)
qed

lemma ex_states:
  "getGuildState (ex_world st th) = Inr st"
  "notifyGuild (ex_world st th) = (\<lambda>g t. if th g then Some (Thrown ''missing access'') else None)"
  "allUsernames ex_guilds = [(js ''A''), (js ''B''), (js ''C'')]"
  "guildMap ex_guilds = [((js ''g1''), [(js ''A''), (js ''B'')]), ((js ''g2''), [(js ''B'')]), ((js ''g3''), [(js ''C'')])]"
  "allUsernames ex_only_A = [(js ''A'')]" "guildMap ex_only_A = [((js ''g1''), [(js ''A'')])]"
  by (simp_all add: ex_world_def ex_guilds_def ex_only_A_def)

lemma ex_notification_user:
  "username (notification ex_tweet_B e) = (js ''B'')" "username (notification ex_tweet_A e) = (js ''A'')"
  "tweet_id (notification ex_tweet_B e) = (js ''10'')" "tweet_id (notification ex_tweet_A e) = (js ''5'')"
  by (simp_all add: notification_def ex_tweet_fields)

lemma ex_tick:
  "tick (ex_world ex_guilds th) ex_seen =
     (ex_seen((js ''A'') := Some (Some (js ''5'')), (js ''B'') := Some (Some (js ''10''))),
      [FetchFeed (js ''A''), FetchFeed (js ''B''), FetchFeed (js ''C''), ErrFetchFailed (js ''C'') (Thrown ''timeout''),
       LogDeeplKeyMissing] @
      (if th (js ''g1'')
       then [NotifyGuild (js ''g1'') (notification ex_tweet_B (js ''ten'')), ErrTickFailed (Thrown ''missing access'')]
       else if th (js ''g2'')
       then [NotifyGuild (js ''g1'') (notification ex_tweet_B (js ''ten'')),
             NotifyGuild (js ''g2'') (notification ex_tweet_B (js ''ten'')), ErrTickFailed (Thrown ''missing access'')]
       else [NotifyGuild (js ''g1'') (notification ex_tweet_B (js ''ten'')),
             NotifyGuild (js ''g2'') (notification ex_tweet_B (js ''ten''))]))"
  by (simp add: tick_def ex_states ex_poll ex_notification_user)

lemma ex_tick_ahead:
  "tick (ex_world ex_only_A (\<lambda>g. False)) ex_seen_ahead =
     (ex_seen_ahead((js ''A'') := Some (Some (js ''5''))),
      [FetchFeed (js ''A''), LogDeeplKeyMissing, NotifyGuild (js ''g1'') (notification ex_tweet_A (js ''five''))])"
  by (simp add: tick_def ex_states ex_poll_ahead ex_notification_user)


section \<open>What a tick delivers\<close>

lemma upto_first_throw_subset: "set (upto_first_throw th gs) \<subseteq> set gs"
  by (induction gs) auto

lemma upto_first_throw_distinct: "distinct gs \<Longrightarrow> distinct (upto_first_throw th gs)"
  using upto_first_throw_subset[of th] by (induction gs) auto

lemma subscribers_distinct: "distinct (map fst gm) \<Longrightarrow> distinct (subscribers gm u)"
  by (simp add: subscribers_def distinct_map_filter)

text \<open>
  Claim C3, amended. For every tick whose snapshot resolves, every identity of the
  snapshot is fetched, and the seen-state entry of every candidate (an identity whose
  latest item has text and passes the newness test) becomes the identifier of its latest
  item, the entries of the others staying as they were. If there is no candidate nothing
  is delivered. Otherwise one candidate whose identifier is numerically greatest among the
  candidates is translated, and its notification is delivered to the tenants whose list
  contains its identity, in the order of the snapshot and each tenant at most once, up to
  and including the first tenant whose delivery throws: to all of them when no delivery
  throws.
\<close>

theorem tick_delivers_newest:
  assumes "getGuildState E = Inr st"
  shows "\<exists>evs. tick E seen = (advance_seen E (allUsernames st) seen, evs) \<and>
     fetches evs = allUsernames st \<and>
     (distinct (map fst (guildMap st)) \<longrightarrow> distinct (map fst (deliveries evs))) \<and>
     (((\<forall>v\<in>set (allUsernames st). candidate E seen v = None) \<and> deliveries evs = []) \<or>
      (\<exists>w\<in>set (allUsernames st). \<exists>l tevs english.
         candidate E seen w = Some l \<and>
         (\<forall>v\<in>set (allUsernames st). \<forall>l'. candidate E seen v = Some l' \<longrightarrow>
            decimal (tweet_id l') \<le> decimal (tweet_id l)) \<and>
         translateToEnglish (deeplTranslator E) (originalText l) = (tevs, Inr english) \<and>
         deliveries evs =
           map (\<lambda>g. (g, notification l english))
             (upto_first_throw (\<lambda>g. notifyGuild E g (notification l english) \<noteq> None)
                (subscribers (guildMap st) w)) \<and>
         ((\<forall>g\<in>set (subscribers (guildMap st) w). notifyGuild E g (notification l english) = None) \<longrightarrow>
            deliveries evs = map (\<lambda>g. (g, notification l english)) (subscribers (guildMap st) w))))"
proof -
  let ?us = "allUsernames st"
  from tick_spec[OF assms, of seen] obtain evs where
    t: "tick E seen = (advance_seen E ?us seen, evs)" and f: "fetches evs = ?us"
    and cases: "((\<forall>v\<in>set ?us. candidate E seen v = None) \<and> deliveries evs = []) \<or>
      (\<exists>w\<in>set ?us. \<exists>l tevs english.
         candidate E seen w = Some l \<and>
         (\<forall>v\<in>set ?us. \<forall>l'. candidate E seen v = Some l' \<longrightarrow>
            decimal (tweet_id l') \<le> decimal (tweet_id l)) \<and>
         translateToEnglish (deeplTranslator E) (originalText l) = (tevs, Inr english) \<and>
         deliveries evs =
           map (\<lambda>g. (g, notification l english))
             (upto_first_throw (\<lambda>g. notifyGuild E g (notification l english) \<noteq> None)
                (subscribers (guildMap st) w)))"
    by blast
  from cases show ?thesis
  proof (rule disjE)
    assume a: "(\<forall>v\<in>set ?us. candidate E seen v = None) \<and> deliveries evs = []"
    then have "distinct (map fst (guildMap st)) \<longrightarrow> distinct (map fst (deliveries evs))" by simp
    with t f a show ?thesis by blast
  next
    assume "\<exists>w\<in>set ?us. \<exists>l tevs english.
         candidate E seen w = Some l \<and>
         (\<forall>v\<in>set ?us. \<forall>l'. candidate E seen v = Some l' \<longrightarrow>
            decimal (tweet_id l') \<le> decimal (tweet_id l)) \<and>
         translateToEnglish (deeplTranslator E) (originalText l) = (tevs, Inr english) \<and>
         deliveries evs =
           map (\<lambda>g. (g, notification l english))
             (upto_first_throw (\<lambda>g. notifyGuild E g (notification l english) \<noteq> None)
                (subscribers (guildMap st) w))"
    then obtain w l tevs english where w: "w \<in> set ?us" "candidate E seen w = Some l"
      and mx: "\<forall>v\<in>set ?us. \<forall>l'. candidate E seen v = Some l' \<longrightarrow>
            decimal (tweet_id l') \<le> decimal (tweet_id l)"
      and tr: "translateToEnglish (deeplTranslator E) (originalText l) = (tevs, Inr english)"
      and d: "deliveries evs =
           map (\<lambda>g. (g, notification l english))
             (upto_first_throw (\<lambda>g. notifyGuild E g (notification l english) \<noteq> None)
                (subscribers (guildMap st) w))"
      by blast
    have dist: "distinct (map fst (guildMap st)) \<longrightarrow> distinct (map fst (deliveries evs))"
      unfolding d by (simp add: comp_def upto_first_throw_distinct subscribers_distinct)
    have all: "(\<forall>g\<in>set (subscribers (guildMap st) w). notifyGuild E g (notification l english) = None) \<longrightarrow>
            deliveries evs = map (\<lambda>g. (g, notification l english)) (subscribers (guildMap st) w)"
      unfolding d by (simp add: upto_first_throw_none)
    from t f dist w mx tr d all show ?thesis by blast
  qed
qed

text \<open>
  The cross-identity scenario: \<open>A\<close> goes from 3 to 5 and \<open>B\<close> from 1 to 10 in the same
  tick, the feed of \<open>C\<close> fails, and only the item of \<open>B\<close> is delivered, to its two
  tenants.
\<close>

theorem tick_delivers_newest_witness:
  "getGuildState (ex_world ex_guilds (\<lambda>g. False)) = Inr ex_guilds \<and>
   fst (tick (ex_world ex_guilds (\<lambda>g. False)) ex_seen) (js ''A'') = Some (Some (js ''5'')) \<and>
   fst (tick (ex_world ex_guilds (\<lambda>g. False)) ex_seen) (js ''B'') = Some (Some (js ''10'')) \<and>
   fst (tick (ex_world ex_guilds (\<lambda>g. False)) ex_seen) =
     advance_seen (ex_world ex_guilds (\<lambda>g. False)) [(js ''A''), (js ''B''), (js ''C'')] ex_seen \<and>
   deliveries (snd (tick (ex_world ex_guilds (\<lambda>g. False)) ex_seen)) =
     [((js ''g1''), notification ex_tweet_B (js ''ten'')), ((js ''g2''), notification ex_tweet_B (js ''ten''))]"
proof -
  have gs: "getGuildState (ex_world ex_guilds (\<lambda>g. False)) = Inr ex_guilds"
    by (rule ex_states)
  from tick_delivers_newest[OF gs, of ex_seen] obtain evs where
    "tick (ex_world ex_guilds (\<lambda>g. False)) ex_seen =
       (advance_seen (ex_world ex_guilds (\<lambda>g. False)) (allUsernames ex_guilds) ex_seen, evs)"
    by blast
  then have adv: "fst (tick (ex_world ex_guilds (\<lambda>g. False)) ex_seen) =
     advance_seen (ex_world ex_guilds (\<lambda>g. False)) [(js ''A''), (js ''B''), (js ''C'')] ex_seen"
    by (simp add: ex_states)
  have "fst (tick (ex_world ex_guilds (\<lambda>g. False)) ex_seen) (js ''A'') = Some (Some (js ''5''))"
    "fst (tick (ex_world ex_guilds (\<lambda>g. False)) ex_seen) (js ''B'') = Some (Some (js ''10''))"
    "deliveries (snd (tick (ex_world ex_guilds (\<lambda>g. False)) ex_seen)) =
     [((js ''g1''), notification ex_tweet_B (js ''ten'')), ((js ''g2''), notification ex_tweet_B (js ''ten''))]"
    by (simp_all add: ex_tick deliveries_def)
  with gs adv show ?thesis by simp
qed

text \<open>
  When the delivery to the first tenant of \<open>B\<close> throws, the second tenant receives
  nothing, although the seen-state of \<open>B\<close> has advanced.
\<close>

theorem tick_delivery_aborts_counterexample:
  "subscribers (guildMap ex_guilds) (js ''B'') = [(js ''g1''), (js ''g2'')] \<and>
   deliveries (snd (tick (ex_world ex_guilds (\<lambda>g. g = (js ''g1''))) ex_seen)) =
     [((js ''g1''), notification ex_tweet_B (js ''ten''))] \<and>
   notifyGuild (ex_world ex_guilds (\<lambda>g. g = (js ''g1''))) (js ''g1'') (notification ex_tweet_B (js ''ten'')) =
     Some (Thrown ''missing access'') \<and>
   fst (tick (ex_world ex_guilds (\<lambda>g. g = (js ''g1''))) ex_seen) (js ''B'') = Some (Some (js ''10''))"
  by (simp add: ex_tick deliveries_def subscribers_def ex_states)


section \<open>Priming\<close>

lemma primeLastSeen_state:
  "fst (primeLastSeen E us seen) u =
     (if u \<in> set us
      then (case fetchLatestTweet E u of
              Inr latest \<Rightarrow> Some (map_option tweet_id latest)
            | Inl e \<Rightarrow> Some None)
      else seen u)"
proof (induction us arbitrary: seen)
  case Nil
  then show ?case by simp
next
  case (Cons v us)
  show ?case
  proof (cases "fetchLatestTweet E v")
    case (Inl e)
    have "fst (primeLastSeen E (v # us) seen) u = fst (primeLastSeen E us (seen(v := Some None))) u"
      using Inl by (simp add: emit_parts)
    then show ?thesis using Cons.IH[of "seen(v := Some None)"] Inl by auto
  next
    case (Inr latest)
    have "fst (primeLastSeen E (v # us) seen) u =
        fst (primeLastSeen E us (seen(v := Some (map_option tweet_id latest)))) u"
      using Inr by (simp add: emit_parts)
    then show ?thesis using Cons.IH[of "seen(v := Some (map_option tweet_id latest))"] Inr by auto
  qed
qed

lemma primeLastSeen_silent:
  "deliveries (fst (snd (primeLastSeen E us seen))) = []"
proof (induction us arbitrary: seen)
  case Nil
  then show ?case by (simp add: deliveries_def)
next
  case (Cons v us)
  show ?case
  proof (cases "fetchLatestTweet E v")
    case (Inl e)
    have "fst (snd (primeLastSeen E (v # us) seen)) =
        [FetchFeed v, ErrPrimeFailed v e] @ fst (snd (primeLastSeen E us (seen(v := Some None))))"
      using Inl by (simp add: emit_parts)
    then have "deliveries (fst (snd (primeLastSeen E (v # us) seen))) =
        deliveries [FetchFeed v, ErrPrimeFailed v e] @
        deliveries (fst (snd (primeLastSeen E us (seen(v := Some None)))))"
      by (simp only: deliveries_simps)
    then show ?thesis unfolding Cons.IH by (simp add: deliveries_def)
  next
    case (Inr latest)
    have "fst (snd (primeLastSeen E (v # us) seen)) =
        [FetchFeed v] @ fst (snd (primeLastSeen E us (seen(v := Some (map_option tweet_id latest)))))"
      using Inr by (simp add: emit_parts)
    then have "deliveries (fst (snd (primeLastSeen E (v # us) seen))) =
        deliveries [FetchFeed v] @
        deliveries (fst (snd (primeLastSeen E us (seen(v := Some (map_option tweet_id latest))))))"
      by (simp only: deliveries_simps)
    then show ?thesis unfolding Cons.IH by (simp add: deliveries_def)
  qed
qed

lemma initialPrime_spec:
  assumes "initialPrime E seen = (seen', evs)"
  shows "deliveries evs = [] \<and>
         (seen' u = seen u \<or>
          (\<exists>latest. fetchLatestTweet E u = Inr latest \<and> seen' u = Some (map_option tweet_id latest)) \<or>
          (\<exists>e. fetchLatestTweet E u = Inl e \<and> seen' u = Some None))"
proof (cases "getGuildState E")
  case (Inl e)
  then show ?thesis using assms by (auto simp: initialPrime_def deliveries_def)
next
  case (Inr st)
  have s: "seen' = fst (primeLastSeen E (allUsernames st) seen)"
    and e: "evs = fst (snd (primeLastSeen E (allUsernames st) seen))"
    using assms Inr by (auto simp: initialPrime_def split: prod.splits)
  have d: "deliveries evs = []" unfolding e by (rule primeLastSeen_silent)
  show ?thesis
    unfolding s using d primeLastSeen_state[of E "allUsernames st" seen u]
    by (cases "fetchLatestTweet E u") (auto simp: s split: if_splits)
qed

lemma advance_seen_cases:
  "advance_seen E us seen u = seen u \<or>
   (\<exists>l. fetchLatestTweet E u = Inr (Some l) \<and> lastIdOf seen u \<noteq> Some (tweet_id l) \<and>
        advance_seen E us seen u = Some (Some (tweet_id l)))"
proof (cases "u \<in> set us \<and> candidate E seen u \<noteq> None")
  case True
  then obtain l where l: "candidate E seen u = Some l" by auto
  from candidate_SomeD[OF l] have "fetchLatestTweet E u = Inr (Some l)"
    "lastIdOf seen u \<noteq> Some (tweet_id l)" by auto
  moreover have "advance_seen E us seen u = Some (Some (tweet_id l))"
    using True l by (simp add: advance_seen_def)
  ultimately show ?thesis by blast
next
  case False
  then have "advance_seen E us seen u = seen u" by (auto simp: advance_seen_def)
  then show ?thesis by simp
qed

lemma tick_cases:
  assumes "tick E seen = (seen', evs)"
  shows "(seen' u = seen u \<or>
          (\<exists>l. fetchLatestTweet E u = Inr (Some l) \<and> lastIdOf seen u \<noteq> Some (tweet_id l) \<and>
               seen' u = Some (Some (tweet_id l)))) \<and>
         (\<forall>g tw. (g, tw) \<in> set (deliveries evs) \<longrightarrow>
            lastIdOf seen (username tw) \<noteq> Some (tweet_id tw))"
proof (cases "getGuildState E")
  case (Inl e)
  then show ?thesis using assms by (auto simp: tick_def deliveries_def)
next
  case (Inr st)
  let ?us = "allUsernames st"
  from tick_spec[OF Inr, of seen] assms have s: "seen' = advance_seen E ?us seen"
    and cases: "((\<forall>v\<in>set ?us. candidate E seen v = None) \<and> deliveries evs = []) \<or>
      (\<exists>w\<in>set ?us. \<exists>l tevs english.
         candidate E seen w = Some l \<and>
         (\<forall>v\<in>set ?us. \<forall>l'. candidate E seen v = Some l' \<longrightarrow>
            decimal (tweet_id l') \<le> decimal (tweet_id l)) \<and>
         translateToEnglish (deeplTranslator E) (originalText l) = (tevs, Inr english) \<and>
         deliveries evs =
           map (\<lambda>g. (g, notification l english))
             (upto_first_throw (\<lambda>g. notifyGuild E g (notification l english) \<noteq> None)
                (subscribers (guildMap st) w)))"
    by auto
  have d: "\<forall>g tw. (g, tw) \<in> set (deliveries evs) \<longrightarrow>
            lastIdOf seen (username tw) \<noteq> Some (tweet_id tw)"
  proof (rule disjE[OF cases])
    assume "(\<forall>v\<in>set ?us. candidate E seen v = None) \<and> deliveries evs = []"
    then show ?thesis by simp
  next
    assume "\<exists>w\<in>set ?us. \<exists>l tevs english.
         candidate E seen w = Some l \<and>
         (\<forall>v\<in>set ?us. \<forall>l'. candidate E seen v = Some l' \<longrightarrow>
            decimal (tweet_id l') \<le> decimal (tweet_id l)) \<and>
         translateToEnglish (deeplTranslator E) (originalText l) = (tevs, Inr english) \<and>
         deliveries evs =
           map (\<lambda>g. (g, notification l english))
             (upto_first_throw (\<lambda>g. notifyGuild E g (notification l english) \<noteq> None)
                (subscribers (guildMap st) w))"
    then obtain w l english gs where c: "candidate E seen w = Some l"
      and dl: "deliveries evs = map (\<lambda>g. (g, notification l english)) gs"
      by blast
    have "lastIdOf seen (username (notification l english)) \<noteq> Some (tweet_id (notification l english))"
      using candidate_SomeD[OF c] candidate_numeral[OF c] by (auto simp: notification_def)
    then show ?thesis unfolding dl by auto
  qed
  from advance_seen_cases[of E ?us seen u] d show ?thesis unfolding s by blast
qed

lemma poll_loop_skip_failed:
  assumes "fetchLatestTweet E u = Inl err"
  shows "fst (poll_loop E us seen best) = fst (poll_loop E (filter (\<lambda>v. v \<noteq> u) us) seen best) \<and>
         snd (snd (poll_loop E us seen best)) =
           snd (snd (poll_loop E (filter (\<lambda>v. v \<noteq> u) us) seen best))"
proof (induction us arbitrary: seen best)
  case Nil
  then show ?case by simp
next
  case (Cons v us)
  show ?case
  proof (cases "v = u")
    case True
    then show ?thesis using assms Cons.IH[of seen best] by (simp add: emit_parts)
  next
    case False
    then show ?thesis
      using Cons.IH
      by (auto simp: emit_parts Let_def fun_upd_def split: sum.splits option.splits)
  qed
qed

lemma pollOnce_parts:
  "fst (pollOnce E us seen) = fst (poll_loop E us seen None) \<and>
   snd (snd (pollOnce E us seen)) =
     (case snd (snd (poll_loop E us seen None)) of
        Inl e \<Rightarrow> Inl e
      | Inr None \<Rightarrow> Inr None
      | Inr (Some best) \<Rightarrow>
          (case snd (translateToEnglish (deeplTranslator E) (originalText best)) of
             Inl e \<Rightarrow> Inl e
           | Inr english \<Rightarrow> Inr (Some (notification best english))))"
  by (auto simp: pollOnce_def notification_def split: prod.splits sum.splits option.splits)

lemma advance_seen_failed:
  assumes "fetchLatestTweet E u = Inl err"
  shows "advance_seen E us seen u = seen u"
  using assms by (simp add: advance_seen_def candidate_def)


section \<open>A tick in terms of the map\<close>

lemma lastIdOf_recorded_iff:
  "d \<noteq> [] \<Longrightarrow> lastIdOf seen u = Some d \<longleftrightarrow> seen u = Some (Some d)"
  by (auto simp: lastIdOf_def split: option.splits if_splits)

lemma candidate_iff: "candidate E seen u = Some l \<longleftrightarrow> newer_item E seen u l"
proof
  assume c: "candidate E seen u = Some l"
  from candidate_SomeD[OF c] candidate_numeral[OF c]
  show "newer_item E seen u l"
    using lastIdOf_recorded_iff[of "tweet_id l" seen u] by (auto simp: newer_item_def)
next
  assume n: "newer_item E seen u l"
  then have f: "fetchLatestTweet E u = Inr (Some l)" by (simp add: newer_item_def)
  from fetch_numeral[OF f] have "tweet_id l \<noteq> []" by simp
  with n lastIdOf_recorded_iff[of "tweet_id l" seen u] show "candidate E seen u = Some l"
    by (auto simp: newer_item_def candidate_def)
qed

lemma candidate_None_iff: "candidate E seen u = None \<longleftrightarrow> (\<forall>l. \<not> newer_item E seen u l)"
  using candidate_iff[of E seen u] by (cases "candidate E seen u") auto

lemma advance_seen_explicit: "advance_seen E us seen = seen_after E us seen"
proof
  fix v
  show "advance_seen E us seen v = seen_after E us seen v"
  proof (cases "candidate E seen v")
    case None
    then have "\<forall>l. \<not> newer_item E seen v l" by (simp add: candidate_None_iff)
    then show ?thesis using None
      by (auto simp: advance_seen_def seen_after_def newer_item_def split: sum.splits option.splits)
  next
    case (Some l)
    then have "newer_item E seen v l" by (simp add: candidate_iff)
    then show ?thesis using Some
      by (auto simp: advance_seen_def seen_after_def newer_item_def split: sum.splits option.splits)
  qed
qed

lemma primeLastSeen_primed: "fst (primeLastSeen E us seen) = primed E us seen"
  by (rule ext) (simp add: primeLastSeen_state primed_def)

lemma pollOnce_exact:
  "fst (pollOnce E us seen) = seen_after E us seen \<and>
   fetches (fst (snd (pollOnce E us seen))) = us \<and>
   deliveries (fst (snd (pollOnce E us seen))) = [] \<and>
   (\<exists>r. snd (snd (pollOnce E us seen)) = Inr r \<and>
      (\<forall>tw. r = Some tw \<longrightarrow>
         username tw \<in> set us \<and>
         (\<exists>l tevs english. newer_item E seen (username tw) l \<and>
            translateToEnglish (deeplTranslator E) (originalText l) = (tevs, Inr english) \<and>
            tw = notification l english)) \<and>
      (\<forall>v\<in>set us. \<forall>l. newer_item E seen v l \<longrightarrow>
         (\<exists>tw. r = Some tw \<and> decimal (tweet_id l) \<le> decimal (tweet_id tw))))"
proof -
  from pollOnce_spec[of us E seen] obtain pevs where
    pev: "fetches pevs = us" "deliveries pevs = []"
    and cases: "((\<forall>v\<in>set us. candidate E seen v = None) \<and>
       pollOnce E us seen = (advance_seen E us seen, pevs, Inr None)) \<or>
      (\<exists>w\<in>set us. \<exists>l tevs english.
         candidate E seen w = Some l \<and>
         (\<forall>v\<in>set us. \<forall>l'. candidate E seen v = Some l' \<longrightarrow>
            decimal (tweet_id l') \<le> decimal (tweet_id l)) \<and>
         translateToEnglish (deeplTranslator E) (originalText l) = (tevs, Inr english) \<and>
         fetches tevs = [] \<and> deliveries tevs = [] \<and>
         pollOnce E us seen =
           (advance_seen E us seen, pevs @ tevs, Inr (Some (notification l english))))"
    by blast
  from cases show ?thesis
  proof (rule disjE)
    assume a: "(\<forall>v\<in>set us. candidate E seen v = None) \<and>
       pollOnce E us seen = (advance_seen E us seen, pevs, Inr None)"
    then have none: "\<forall>v\<in>set us. \<forall>l. \<not> newer_item E seen v l"
      by (simp add: candidate_None_iff)
    have run: "pollOnce E us seen = (seen_after E us seen, pevs, Inr None)"
      using a by (simp add: advance_seen_explicit)
    show ?thesis unfolding run using pev none by simp
  next
    assume "\<exists>w\<in>set us. \<exists>l tevs english.
         candidate E seen w = Some l \<and>
         (\<forall>v\<in>set us. \<forall>l'. candidate E seen v = Some l' \<longrightarrow>
            decimal (tweet_id l') \<le> decimal (tweet_id l)) \<and>
         translateToEnglish (deeplTranslator E) (originalText l) = (tevs, Inr english) \<and>
         fetches tevs = [] \<and> deliveries tevs = [] \<and>
         pollOnce E us seen =
           (advance_seen E us seen, pevs @ tevs, Inr (Some (notification l english)))"
    then obtain w l tevs english where w: "w \<in> set us" and c: "candidate E seen w = Some l"
      and mx: "\<forall>v\<in>set us. \<forall>l'. candidate E seen v = Some l' \<longrightarrow>
            decimal (tweet_id l') \<le> decimal (tweet_id l)"
      and tr: "translateToEnglish (deeplTranslator E) (originalText l) = (tevs, Inr english)"
        "fetches tevs = []" "deliveries tevs = []"
      and run0: "pollOnce E us seen =
           (advance_seen E us seen, pevs @ tevs, Inr (Some (notification l english)))"
      by blast
    have run: "pollOnce E us seen =
           (seen_after E us seen, pevs @ tevs, Inr (Some (notification l english)))"
      using run0 by (simp add: advance_seen_explicit)
    have un: "username (notification l english) = w" "tweet_id (notification l english) = tweet_id l"
      using candidate_numeral[OF c] by (simp_all add: notification_def)
    have nw: "newer_item E seen w l" using c by (simp add: candidate_iff)
    have r1: "\<forall>tw. Some (notification l english) = Some tw \<longrightarrow>
         username tw \<in> set us \<and>
         (\<exists>l' tevs' english'. newer_item E seen (username tw) l' \<and>
            translateToEnglish (deeplTranslator E) (originalText l') = (tevs', Inr english') \<and>
            tw = notification l' english')"
      using w nw tr(1) un by auto
    have r2: "\<forall>v\<in>set us. \<forall>l'. newer_item E seen v l' \<longrightarrow>
         (\<exists>tw. Some (notification l english) = Some tw \<and>
               decimal (tweet_id l') \<le> decimal (tweet_id tw))"
      using mx un(2) by (simp add: candidate_iff)
    show ?thesis unfolding run using pev tr(2,3) r1 r2
      by (simp add: fetches_simps deliveries_simps)
  qed
qed

lemma tick_deliveries:
  assumes "getGuildState E = Inr st"
  shows "tick E seen =
           (fst (pollOnce E (allUsernames st) seen), snd (tick E seen)) \<and>
         fetches (snd (tick E seen)) = allUsernames st \<and>
         deliveries (snd (tick E seen)) =
           (case snd (snd (pollOnce E (allUsernames st) seen)) of
              Inr (Some tw) \<Rightarrow> fan_out E st tw
            | _ \<Rightarrow> [])"
proof -
  let ?us = "allUsernames st"
  obtain s' evs r where run: "pollOnce E ?us seen = (s', evs, r)"
    by (cases "pollOnce E ?us seen") auto
  from pollOnce_exact[of E ?us seen] obtain r' where
    ev: "fetches evs = ?us" "deliveries evs = []" and r: "r = Inr r'"
    unfolding run by auto
  show ?thesis
  proof (cases r')
    case None
    then have "tick E seen = (s', evs)" using assms run r by (simp add: tick_def)
    then show ?thesis using run r None ev by simp
  next
    case (Some tw)
    obtain nevs e where nl: "notify_loop E (guildMap st) tw = (nevs, e)"
      by (cases "notify_loop E (guildMap st) tw")
    have nevs: "nevs = map (\<lambda>g. NotifyGuild g tw)
        (upto_first_throw (\<lambda>g. notifyGuild E g tw \<noteq> None) (subscribers (guildMap st) (username tw)))"
      using notify_loop_events[of E "guildMap st" tw] nl by simp
    have "\<exists>errs. tick E seen = (s', evs @ nevs @ errs) \<and> fetches errs = [] \<and> deliveries errs = []"
      using assms run r Some nl by (cases e) (simp_all add: tick_def fetches_def deliveries_def)
    then obtain errs where t: "tick E seen = (s', evs @ nevs @ errs)"
      and errs: "fetches errs = []" "deliveries errs = []" by blast
    have f: "fetches (evs @ nevs @ errs) = ?us"
      using ev errs by (simp add: fetches_simps nevs notify_fetches)
    have d: "deliveries (evs @ nevs @ errs) = fan_out E st tw"
      using ev errs by (simp add: deliveries_simps nevs deliveries_notify fan_out_def)
    show ?thesis unfolding t using run r Some f d by simp
  qed
qed


section \<open>How the seen-state moves\<close>

lemma tick_state:
  assumes "getGuildState E = Inr st"
  shows "fst (tick E seen) = seen_after E (allUsernames st) seen"
  using tick_deliveries[OF assms, of seen] pollOnce_exact[of E "allUsernames st" seen]
  by (metis fst_conv)

lemma seen_after_cases:
  "seen_after E us seen u = seen u \<or>
   (\<exists>l. newer_item E seen u l \<and> seen_after E us seen u = Some (Some (tweet_id l)))"
  by (auto simp: seen_after_def newer_item_def split: sum.splits option.splits)

lemma fan_out_tweet: "(g, tw') \<in> set (fan_out E st tw) \<Longrightarrow> tw' = tw"
  by (auto simp: fan_out_def)

lemma newer_item_notification:
  "newer_item E seen (username (notification l english)) l \<Longrightarrow>
   seen (username (notification l english)) \<noteq> Some (Some (tweet_id (notification l english)))"
  by (simp add: newer_item_def notification_def)

lemma tick_delivered_newer:
  assumes "(g, tw) \<in> set (deliveries (snd (tick E seen)))"
  shows "seen (username tw) \<noteq> Some (Some (tweet_id tw)) \<and>
         (\<exists>l. newer_item E seen (username tw) l \<and> tweet_id tw = tweet_id l)"
proof (cases "getGuildState E")
  case (Inl e)
  then show ?thesis using assms by (simp add: tick_def deliveries_def)
next
  case (Inr st)
  let ?us = "allUsernames st"
  from pollOnce_exact[of E ?us seen] obtain r where
    r: "snd (snd (pollOnce E ?us seen)) = Inr r"
    and src: "\<forall>tw. r = Some tw \<longrightarrow>
         username tw \<in> set ?us \<and>
         (\<exists>l tevs english. newer_item E seen (username tw) l \<and>
            translateToEnglish (deeplTranslator E) (originalText l) = (tevs, Inr english) \<and>
            tw = notification l english)"
    by blast
  from tick_deliveries[OF Inr, of seen] r
  have d: "deliveries (snd (tick E seen)) = (case r of Some tw \<Rightarrow> fan_out E st tw | None \<Rightarrow> [])"
    by (simp split: option.splits)
  show ?thesis
  proof (cases r)
    case None
    then show ?thesis using assms d by simp
  next
    case (Some tw0)
    then have "tw = tw0" using assms d fan_out_tweet by auto
    with src Some obtain l english where n: "newer_item E seen (username tw) l"
      and tw: "tw = notification l english" by blast
    have "tweet_id tw = tweet_id l" using tw by (simp add: notification_def)
    moreover have "seen (username tw) \<noteq> Some (Some (tweet_id tw))"
      using n newer_item_notification[of E seen l english] unfolding tw by simp
    ultimately show ?thesis using n by blast
  qed
qed

lemma initialPrime_state:
  assumes "getGuildState E = Inr st"
  shows "fst (initialPrime E seen) = primed E (allUsernames st) seen"
  using assms primeLastSeen_primed[of E "allUsernames st" seen]
  by (auto simp: initialPrime_def split: prod.splits)

lemma initialPrime_silent: "deliveries (snd (initialPrime E seen)) = []"
proof (cases "getGuildState E")
  case (Inl e)
  then show ?thesis by (simp add: initialPrime_def deliveries_def)
next
  case (Inr st)
  have "snd (initialPrime E seen) = fst (snd (primeLastSeen E (allUsernames st) seen))"
    using Inr by (simp add: initialPrime_def split: prod.splits)
  then show ?thesis by (simp add: primeLastSeen_silent)
qed

text \<open>
  Claim C1, amended. When the snapshot resolves, a tick leaves the map in which every
  identity of the snapshot with a newer item (an item fetched with text whose identifier
  is not the recorded string) holds the identifier of that item, and every other entry is
  as it was; priming leaves the map in which every identity of the snapshot holds the
  identifier of its latest item, or null when the feed has none or the fetch fails. When
  the snapshot does not resolve, both leave the map as it was. So an entry changes at a
  tick only to the identifier of the latest item fetched for the identity, and only when
  that identifier is not the recorded one; an item whose identifier is the recorded one is
  never delivered, and priming delivers nothing. Nothing is said about the numeric order
  of the old and the new identifier.
\<close>

theorem seen_state_follows_latest:
  "(\<forall>e. getGuildState E = Inl e \<longrightarrow>
      tick E seen = (seen, [ErrTickFailed e]) \<and>
      initialPrime E seen = (seen, [ErrInitialPrimeFailed e])) \<and>
   (\<forall>st. getGuildState E = Inr st \<longrightarrow>
      fst (tick E seen) = seen_after E (allUsernames st) seen \<and>
      fst (initialPrime E seen) = primed E (allUsernames st) seen) \<and>
   (\<forall>u. fst (tick E seen) u = seen u \<or>
        (\<exists>l. newer_item E seen u l \<and> fst (tick E seen) u = Some (Some (tweet_id l)))) \<and>
   (\<forall>g tw. (g, tw) \<in> set (deliveries (snd (tick E seen))) \<longrightarrow>
      seen (username tw) \<noteq> Some (Some (tweet_id tw)) \<and>
      (\<exists>l. newer_item E seen (username tw) l \<and> tweet_id tw = tweet_id l)) \<and>
   deliveries (snd (initialPrime E seen)) = []"
proof (intro conjI allI impI)
  fix e assume "getGuildState E = Inl e"
  then show "tick E seen = (seen, [ErrTickFailed e])"
    "initialPrime E seen = (seen, [ErrInitialPrimeFailed e])"
    by (simp_all add: tick_def initialPrime_def)
next
  fix st assume "getGuildState E = Inr st"
  then show "fst (tick E seen) = seen_after E (allUsernames st) seen"
    "fst (initialPrime E seen) = primed E (allUsernames st) seen"
    by (simp_all add: tick_state initialPrime_state)
next
  fix u
  show "fst (tick E seen) u = seen u \<or>
        (\<exists>l. newer_item E seen u l \<and> fst (tick E seen) u = Some (Some (tweet_id l)))"
  proof (cases "getGuildState E")
    case (Inl e)
    then show ?thesis by (simp add: tick_def)
  next
    case (Inr st)
    show ?thesis unfolding tick_state[OF Inr] by (rule seen_after_cases)
  qed
next
  fix g tw assume "(g, tw) \<in> set (deliveries (snd (tick E seen)))"
  from tick_delivered_newer[OF this]
  show "seen (username tw) \<noteq> Some (Some (tweet_id tw))"
    "\<exists>l. newer_item E seen (username tw) l \<and> tweet_id tw = tweet_id l"
    by blast+
next
  show "deliveries (snd (initialPrime E seen)) = []" by (rule initialPrime_silent)
qed

lemma ex_seen_after:
  "seen_after (ex_world st th) [js ''A'', js ''B'', js ''C''] ex_seen (js ''A'') = Some (Some (js ''5''))"
  "seen_after (ex_world st th) [js ''A'', js ''B'', js ''C''] ex_seen (js ''B'') = Some (Some (js ''10''))"
  "seen_after (ex_world st th) [js ''A'', js ''B'', js ''C''] ex_seen (js ''C'') = None"
  by (simp_all add: seen_after_def ex_fetch ex_tweet_fields ex_seen_def)

lemma ex_primed:
  "primed (ex_world st th) [js ''A'', js ''B'', js ''C''] (\<lambda>u. None) (js ''A'') = Some (Some (js ''5''))"
  "primed (ex_world st th) [js ''A'', js ''B'', js ''C''] (\<lambda>u. None) (js ''C'') = Some None"
  "primed (ex_world st th) [js ''A'', js ''B'', js ''C''] (\<lambda>u. None) (js ''Z'') = None"
  by (simp_all add: primed_def ex_fetch ex_tweet_fields)

text \<open>
  In the cross-identity scenario the entry of \<open>A\<close> goes from 3 to 5 and that of \<open>C\<close>,
  whose fetch fails, stays; the delivered item of \<open>B\<close> is not the recorded one; priming
  from the empty map records 5 for \<open>A\<close>, null for \<open>C\<close> and nothing for an identity that
  is not tracked.
\<close>

theorem seen_state_follows_latest_witness:
  "getGuildState (ex_world ex_guilds (\<lambda>g. False)) = Inr ex_guilds \<and>
   ex_seen (js ''A'') = Some (Some (js ''3'')) \<and>
   fst (tick (ex_world ex_guilds (\<lambda>g. False)) ex_seen) (js ''A'') = Some (Some (js ''5'')) \<and>
   fst (tick (ex_world ex_guilds (\<lambda>g. False)) ex_seen) (js ''C'') = None \<and>
   (js ''g1'', notification ex_tweet_B (js ''ten'')) \<in>
     set (deliveries (snd (tick (ex_world ex_guilds (\<lambda>g. False)) ex_seen))) \<and>
   ex_seen (js ''B'') \<noteq> Some (Some (js ''10'')) \<and>
   deliveries (snd (initialPrime (ex_world ex_guilds (\<lambda>g. False)) (\<lambda>u. None))) = [] \<and>
   fst (initialPrime (ex_world ex_guilds (\<lambda>g. False)) (\<lambda>u. None)) (js ''A'') = Some (Some (js ''5'')) \<and>
   fst (initialPrime (ex_world ex_guilds (\<lambda>g. False)) (\<lambda>u. None)) (js ''C'') = Some None \<and>
   fst (initialPrime (ex_world ex_guilds (\<lambda>g. False)) (\<lambda>u. None)) (js ''Z'') = None"
proof -
  let ?W = "ex_world ex_guilds (\<lambda>g. False)"
  have gs: "getGuildState ?W = Inr ex_guilds" by (rule ex_states)
  have a: "ex_seen (js ''A'') = Some (Some (js ''3''))" by (simp add: ex_seen_def)
  note th = seen_state_follows_latest[of ?W ex_seen]
  note thp = seen_state_follows_latest[of ?W "\<lambda>u. None"]
  from th gs have t: "fst (tick ?W ex_seen) = seen_after ?W (allUsernames ex_guilds) ex_seen"
    by blast
  from thp gs have p: "fst (initialPrime ?W (\<lambda>u. None)) = primed ?W (allUsernames ex_guilds) (\<lambda>u. None)"
    by blast
  from thp have q: "deliveries (snd (initialPrime ?W (\<lambda>u. None))) = []" by blast
  have d: "(js ''g1'', notification ex_tweet_B (js ''ten'')) \<in> set (deliveries (snd (tick ?W ex_seen)))"
    by (simp add: ex_tick deliveries_def)
  from th d have b: "ex_seen (username (notification ex_tweet_B (js ''ten''))) \<noteq>
      Some (Some (tweet_id (notification ex_tweet_B (js ''ten''))))"
    by blast
  show ?thesis
    unfolding t p using gs a d b q
    by (simp add: ex_states ex_seen_after ex_primed ex_notification_user)
qed


text \<open>
  The seen-state holds 10 for \<open>A\<close> and the latest item of its feed has identifier 5 (a
  newer post was withdrawn): the tick records 5, which is smaller, and delivers the item.
\<close>

theorem seen_state_decreases_counterexample:
  "ex_seen_ahead (js ''A'') = Some (Some (js ''10'')) \<and>
   fst (tick (ex_world ex_only_A (\<lambda>g. False)) ex_seen_ahead) (js ''A'') = Some (Some (js ''5'')) \<and>
   BigInt (js ''5'') = Inr 5 \<and> BigInt (js ''10'') = Inr 10 \<and> (5 :: nat) < 10 \<and>
   deliveries (snd (tick (ex_world ex_only_A (\<lambda>g. False)) ex_seen_ahead)) =
     [((js ''g1''), notification ex_tweet_A (js ''five''))] \<and>
   tweet_id (notification ex_tweet_A (js ''five'')) = (js ''5'')"
proof -
  have "ex_seen_ahead (js ''A'') = Some (Some (js ''10''))" by (simp add: ex_seen_ahead_def)
  then show ?thesis
    by (simp add: ex_tick_ahead ex_decimals deliveries_def ex_notification_user)
qed


section \<open>The newness test\<close>

lemma pollOnce_single:
  assumes "fetchLatestTweet E u = Inr (Some l)" and "originalText l \<noteq> []"
  shows "(seen u \<noteq> Some (Some (tweet_id l)) \<longrightarrow>
            (\<exists>evs english. pollOnce E [u] seen =
               (seen(u := Some (Some (tweet_id l))), evs, Inr (Some (notification l english))))) \<and>
         (seen u = Some (Some (tweet_id l)) \<longrightarrow>
            (\<exists>evs. pollOnce E [u] seen = (seen, evs, Inr None)))"
proof (intro conjI impI)
  note num = fetch_numeral[OF assms(1)]
  assume new: "seen u \<noteq> Some (Some (tweet_id l))"
  then have "Some (tweet_id l) \<noteq> lastIdOf seen u"
    by (auto simp: lastIdOf_def split: option.splits if_splits)
  then have loop: "poll_loop E [u] seen None =
      (seen(u := Some (Some (tweet_id l))), [FetchFeed u], Inr (Some l))"
    using assms by (simp add: emit_def Let_def)
  from translate_total[of "deeplTranslator E" "originalText l"] obtain tevs english where
    tr: "translateToEnglish (deeplTranslator E) (originalText l) = (tevs, Inr english)" by blast
  have "pollOnce E [u] seen =
      (seen(u := Some (Some (tweet_id l))), [FetchFeed u] @ tevs, Inr (Some (notification l english)))"
    unfolding pollOnce_def loop using tr by (simp add: notification_def)
  then show "\<exists>evs english. pollOnce E [u] seen =
               (seen(u := Some (Some (tweet_id l))), evs, Inr (Some (notification l english)))"
    by blast
next
  note num = fetch_numeral[OF assms(1)]
  assume old: "seen u = Some (Some (tweet_id l))"
  then have "Some (tweet_id l) = lastIdOf seen u"
    using num by (simp add: lastIdOf_def)
  then have loop: "poll_loop E [u] seen None = (seen, [FetchFeed u], Inr None)"
    using assms by (simp add: emit_def Let_def)
  have "pollOnce E [u] seen = (seen, [FetchFeed u], Inr None)"
    unfolding pollOnce_def loop by simp
  then show "\<exists>evs. pollOnce E [u] seen = (seen, evs, Inr None)" by blast
qed

text \<open>
  Claim C2, amended. In a poll over any list of identities that contains \<open>u\<close>, whose
  latest item \<open>l\<close> is fetched with text, the newness test on \<open>u\<close> succeeds exactly when
  the identifier of \<open>l\<close> is not the string recorded for \<open>u\<close>, in particular when nothing
  is recorded, the entry being absent or null. When it succeeds the entry of \<open>u\<close> becomes
  the identifier and the item is considered for delivery: the poll has a result, whose
  identifier is numerically at least that of \<open>l\<close>. When the identifier is the recorded
  one, the entry stays and \<open>u\<close> is not the identity of the result. The result of a poll
  is always the latest item of an identity of the list whose identifier is not the
  recorded one. In a poll over \<open>u\<close> alone the result is the item itself or none.
\<close>

theorem newness_is_inequality:
  assumes "u \<in> set us" and "fetchLatestTweet E u = Inr (Some l)" and "originalText l \<noteq> []"
  shows "(seen u \<noteq> Some (Some (tweet_id l)) \<longrightarrow>
            fst (pollOnce E us seen) u = Some (Some (tweet_id l)) \<and>
            (\<exists>tw. snd (snd (pollOnce E us seen)) = Inr (Some tw) \<and>
                  decimal (tweet_id l) \<le> decimal (tweet_id tw))) \<and>
         (seen u = Some (Some (tweet_id l)) \<longrightarrow>
            fst (pollOnce E us seen) u = seen u \<and>
            (\<exists>r. snd (snd (pollOnce E us seen)) = Inr r \<and>
                 (\<forall>tw. r = Some tw \<longrightarrow> username tw \<noteq> u))) \<and>
         (\<exists>r. snd (snd (pollOnce E us seen)) = Inr r \<and>
            (\<forall>tw. r = Some tw \<longrightarrow>
               username tw \<in> set us \<and>
               seen (username tw) \<noteq> Some (Some (tweet_id tw)) \<and>
               (\<exists>l'. fetchLatestTweet E (username tw) = Inr (Some l') \<and>
                     originalText l' \<noteq> [] \<and> tweet_id tw = tweet_id l'))) \<and>
         (seen u \<noteq> Some (Some (tweet_id l)) \<longrightarrow>
            (\<exists>evs english. pollOnce E [u] seen =
               (seen(u := Some (Some (tweet_id l))), evs, Inr (Some (notification l english))))) \<and>
         (seen u = Some (Some (tweet_id l)) \<longrightarrow>
            (\<exists>evs. pollOnce E [u] seen = (seen, evs, Inr None)))"
proof -
  from pollOnce_exact[of E us seen] obtain r where
    st: "fst (pollOnce E us seen) = seen_after E us seen"
    and r: "snd (snd (pollOnce E us seen)) = Inr r"
    and src: "\<forall>tw. r = Some tw \<longrightarrow>
         username tw \<in> set us \<and>
         (\<exists>l tevs english. newer_item E seen (username tw) l \<and>
            translateToEnglish (deeplTranslator E) (originalText l) = (tevs, Inr english) \<and>
            tw = notification l english)"
    and mx: "\<forall>v\<in>set us. \<forall>l. newer_item E seen v l \<longrightarrow>
         (\<exists>tw. r = Some tw \<and> decimal (tweet_id l) \<le> decimal (tweet_id tw))"
    by blast
  have res: "\<forall>tw. r = Some tw \<longrightarrow>
               username tw \<in> set us \<and>
               seen (username tw) \<noteq> Some (Some (tweet_id tw)) \<and>
               (\<exists>l'. fetchLatestTweet E (username tw) = Inr (Some l') \<and>
                     originalText l' \<noteq> [] \<and> tweet_id tw = tweet_id l')"
  proof (intro allI impI)
    fix tw assume "r = Some tw"
    with src obtain l' english where u: "username tw \<in> set us"
      and n: "newer_item E seen (username tw) l'" and tw: "tw = notification l' english"
      by blast
    have id: "tweet_id tw = tweet_id l'" using tw by (simp add: notification_def)
    from n show "username tw \<in> set us \<and>
               seen (username tw) \<noteq> Some (Some (tweet_id tw)) \<and>
               (\<exists>l'. fetchLatestTweet E (username tw) = Inr (Some l') \<and>
                     originalText l' \<noteq> [] \<and> tweet_id tw = tweet_id l')"
      using u id by (auto simp: newer_item_def)
  qed
  have new: "seen u \<noteq> Some (Some (tweet_id l)) \<longrightarrow>
            fst (pollOnce E us seen) u = Some (Some (tweet_id l)) \<and>
            (\<exists>tw. snd (snd (pollOnce E us seen)) = Inr (Some tw) \<and>
                  decimal (tweet_id l) \<le> decimal (tweet_id tw))"
  proof
    assume a: "seen u \<noteq> Some (Some (tweet_id l))"
    then have n: "newer_item E seen u l" using assms by (simp add: newer_item_def)
    have "seen_after E us seen u = Some (Some (tweet_id l))"
      using assms a by (simp add: seen_after_def)
    moreover from mx n assms(1) obtain tw where "r = Some tw"
      "decimal (tweet_id l) \<le> decimal (tweet_id tw)" by blast
    ultimately show "fst (pollOnce E us seen) u = Some (Some (tweet_id l)) \<and>
            (\<exists>tw. snd (snd (pollOnce E us seen)) = Inr (Some tw) \<and>
                  decimal (tweet_id l) \<le> decimal (tweet_id tw))"
      using st r by simp
  qed
  have old: "seen u = Some (Some (tweet_id l)) \<longrightarrow>
            fst (pollOnce E us seen) u = seen u \<and>
            (\<exists>r. snd (snd (pollOnce E us seen)) = Inr r \<and>
                 (\<forall>tw. r = Some tw \<longrightarrow> username tw \<noteq> u))"
  proof
    assume a: "seen u = Some (Some (tweet_id l))"
    have s: "seen_after E us seen u = seen u"
      using assms a by (simp add: seen_after_def)
    have "\<forall>tw. r = Some tw \<longrightarrow> username tw \<noteq> u"
    proof (intro allI impI notI)
      fix tw assume "r = Some tw" and "username tw = u"
      with res obtain l' where "fetchLatestTweet E u = Inr (Some l')" "tweet_id tw = tweet_id l'"
        "seen u \<noteq> Some (Some (tweet_id tw))" by blast
      with assms(2) a show False by simp
    qed
    then show "fst (pollOnce E us seen) u = seen u \<and>
            (\<exists>r. snd (snd (pollOnce E us seen)) = Inr r \<and>
                 (\<forall>tw. r = Some tw \<longrightarrow> username tw \<noteq> u))"
      using st s r by simp
  qed
  from new old r res pollOnce_single[OF assms(2,3), of seen] show ?thesis by blast
qed

text \<open>
  The identity \<open>A\<close> in the poll over \<open>A\<close>, \<open>B\<close> and \<open>C\<close>, with 3 recorded and 5
  fetched, and again once 5 is recorded.
\<close>

theorem newness_is_inequality_witness:
  "js ''A'' \<in> set [js ''A'', js ''B'', js ''C''] \<and>
   fetchLatestTweet (ex_world ex_guilds (\<lambda>g. False)) (js ''A'') = Inr (Some ex_tweet_A) \<and>
   originalText ex_tweet_A \<noteq> [] \<and>
   ex_seen (js ''A'') \<noteq> Some (Some (tweet_id ex_tweet_A)) \<and>
   fst (pollOnce (ex_world ex_guilds (\<lambda>g. False)) [js ''A'', js ''B'', js ''C''] ex_seen) (js ''A'') =
     Some (Some (js ''5'')) \<and>
   snd (snd (pollOnce (ex_world ex_guilds (\<lambda>g. False)) [js ''A'', js ''B'', js ''C''] ex_seen)) =
     Inr (Some (notification ex_tweet_B (js ''ten''))) \<and>
   decimal (js ''5'') \<le> decimal (js ''10'') \<and>
   (ex_seen(js ''A'' := Some (Some (js ''5'')))) (js ''A'') = Some (Some (tweet_id ex_tweet_A)) \<and>
   fst (pollOnce (ex_world ex_guilds (\<lambda>g. False)) [js ''A'', js ''B'', js ''C'']
          (ex_seen(js ''A'' := Some (Some (js ''5''))))) (js ''A'') = Some (Some (js ''5'')) \<and>
   snd (snd (pollOnce (ex_world ex_guilds (\<lambda>g. False)) [js ''A'']
          (ex_seen(js ''A'' := Some (Some (js ''5'')))))) = Inr None"
proof -
  let ?W = "ex_world ex_guilds (\<lambda>g. False)"
  let ?us = "[js ''A'', js ''B'', js ''C'']"
  let ?seen' = "ex_seen(js ''A'' := Some (Some (js ''5'')))"
  have m: "js ''A'' \<in> set ?us" by simp
  have m1: "js ''A'' \<in> set [js ''A'']" by simp
  have f: "fetchLatestTweet ?W (js ''A'') = Inr (Some ex_tweet_A)" by (rule ex_fetch)
  have t: "originalText ex_tweet_A \<noteq> []" by (simp add: ex_tweet_fields)
  have n: "ex_seen (js ''A'') \<noteq> Some (Some (tweet_id ex_tweet_A))"
    by (simp add: ex_seen_def ex_tweet_fields)
  have o: "?seen' (js ''A'') = Some (Some (tweet_id ex_tweet_A))"
    by (simp add: ex_tweet_fields)
  from newness_is_inequality[OF m f t, of ex_seen] n
  have 1: "fst (pollOnce ?W ?us ex_seen) (js ''A'') = Some (Some (tweet_id ex_tweet_A))" by blast
  from newness_is_inequality[OF m f t, of ?seen'] o
  have 2: "fst (pollOnce ?W ?us ?seen') (js ''A'') = ?seen' (js ''A'')" by blast
  from newness_is_inequality[OF m1 f t, of ?seen'] o
  have 3: "snd (snd (pollOnce ?W [js ''A''] ?seen')) = Inr None" by auto
  have 4: "snd (snd (pollOnce ?W ?us ex_seen)) = Inr (Some (notification ex_tweet_B (js ''ten'')))"
    by (simp add: ex_poll)
  have 5: "decimal (js ''5'') \<le> decimal (js ''10'')" by (simp add: ex_decimals)
  from m f t n o 1 2 3 4 5 show ?thesis by (simp add: ex_tweet_fields)
qed


text \<open>
  With 10 recorded and 5 fetched the test succeeds, although 5 is not greater than 10.
\<close>

theorem newness_smaller_counterexample:
  "ex_seen_ahead (js ''A'') = Some (Some (js ''10'')) \<and>
   pollOnce (ex_world ex_only_A (\<lambda>g. False)) [(js ''A'')] ex_seen_ahead =
     (ex_seen_ahead((js ''A'') := Some (Some (js ''5''))), [FetchFeed (js ''A''), LogDeeplKeyMissing],
      Inr (Some (notification ex_tweet_A (js ''five'')))) \<and>
   tweet_id (notification ex_tweet_A (js ''five'')) = (js ''5'') \<and>
   BigInt (js ''5'') = Inr 5 \<and> BigInt (js ''10'') = Inr 10 \<and> \<not> (10 :: nat) < 5"
proof -
  have "ex_seen_ahead (js ''A'') = Some (Some (js ''10''))" by (simp add: ex_seen_ahead_def)
  then show ?thesis by (simp add: ex_poll_ahead ex_decimals ex_notification_user)
qed

section \<open>A failed fetch\<close>

lemma seen_after_failed:
  assumes "fetchLatestTweet E u = Inl err"
  shows "seen_after E us seen u = seen u"
  using assms by (simp add: seen_after_def)

lemma newer_item_failed:
  assumes "fetchLatestTweet E u = Inl err"
  shows "\<not> newer_item E seen u l"
  using assms by (simp add: newer_item_def)

text \<open>
  Claim C7. Let the fetch for the identity \<open>u\<close> throw. A poll over any list of identities
  ends without an exception and has fetched every identity of the list in order. It leaves
  the map in which exactly the identities of the list with a newer item are moved to the
  identifier of that item; the entry of \<open>u\<close> is as before. Its result is never an item of
  \<open>u\<close>: it is the notification of a newer item of an identity of the list, and there is one,
  with an identifier numerically at least that of every newer item of the list, as soon as
  one identity of the list has a newer item. Map and result are those of the poll over the
  list without \<open>u\<close>. When the snapshot resolves, the tick ends with that map, has fetched every
  identity of the snapshot, and has delivered the result of the poll over the other
  identities to the subscribed tenants, in the order of the snapshot as far as the first
  delivery that throws; the next firing starts from that map, and fetches \<open>u\<close> again when
  \<open>u\<close> is in its snapshot.
\<close>

theorem failed_fetch_is_skipped:
  assumes "fetchLatestTweet E u = Inl err"
  shows "fst (pollOnce E us seen) = seen_after E us seen \<and>
         fst (pollOnce E us seen) u = seen u \<and>
         fetches (fst (snd (pollOnce E us seen))) = us \<and>
         (\<exists>r. snd (snd (pollOnce E us seen)) = Inr r \<and>
            (\<forall>tw. r = Some tw \<longrightarrow>
               username tw \<in> set us \<and> username tw \<noteq> u \<and>
               (\<exists>l tevs english. newer_item E seen (username tw) l \<and>
                  translateToEnglish (deeplTranslator E) (originalText l) = (tevs, Inr english) \<and>
                  tw = notification l english)) \<and>
            (\<forall>v\<in>set us. \<forall>l. newer_item E seen v l \<longrightarrow>
               (\<exists>tw. r = Some tw \<and> decimal (tweet_id l) \<le> decimal (tweet_id tw)))) \<and>
         fst (pollOnce E us seen) = fst (pollOnce E (filter (\<lambda>v. v \<noteq> u) us) seen) \<and>
         snd (snd (pollOnce E us seen)) = snd (snd (pollOnce E (filter (\<lambda>v. v \<noteq> u) us) seen)) \<and>
         (\<forall>st. getGuildState E = Inr st \<longrightarrow>
            (\<exists>evs. tick E seen = (seen_after E (allUsernames st) seen, evs) \<and>
                   fetches evs = allUsernames st \<and>
                   deliveries evs =
                     (case snd (snd (pollOnce E (filter (\<lambda>v. v \<noteq> u) (allUsernames st)) seen)) of
                        Inr (Some tw) \<Rightarrow> fan_out E st tw
                      | _ \<Rightarrow> []) \<and>
                   (\<forall>Es. run_ticks (E # Es) seen =
                      (fst (run_ticks Es (seen_after E (allUsernames st) seen)),
                       evs @ snd (run_ticks Es (seen_after E (allUsernames st) seen)))))) \<and>
         (\<forall>E' st'. getGuildState E' = Inr st' \<and> u \<in> set (allUsernames st') \<longrightarrow>
            u \<in> set (fetches (snd (tick E' (fst (tick E seen))))))"
proof -
  from pollOnce_exact[of E us seen] obtain r where
    st: "fst (pollOnce E us seen) = seen_after E us seen"
    and fe: "fetches (fst (snd (pollOnce E us seen))) = us"
    and r: "snd (snd (pollOnce E us seen)) = Inr r"
    and src: "\<forall>tw. r = Some tw \<longrightarrow>
         username tw \<in> set us \<and>
         (\<exists>l tevs english. newer_item E seen (username tw) l \<and>
            translateToEnglish (deeplTranslator E) (originalText l) = (tevs, Inr english) \<and>
            tw = notification l english)"
    and mx: "\<forall>v\<in>set us. \<forall>l. newer_item E seen v l \<longrightarrow>
         (\<exists>tw. r = Some tw \<and> decimal (tweet_id l) \<le> decimal (tweet_id tw))"
    by blast
  have su: "fst (pollOnce E us seen) u = seen u"
    unfolding st by (rule seen_after_failed[OF assms])
  have src': "\<forall>tw. r = Some tw \<longrightarrow>
               username tw \<in> set us \<and> username tw \<noteq> u \<and>
               (\<exists>l tevs english. newer_item E seen (username tw) l \<and>
                  translateToEnglish (deeplTranslator E) (originalText l) = (tevs, Inr english) \<and>
                  tw = notification l english)"
    using src newer_item_failed[OF assms, of seen] by metis
  have res: "\<exists>r. snd (snd (pollOnce E us seen)) = Inr r \<and>
            (\<forall>tw. r = Some tw \<longrightarrow>
               username tw \<in> set us \<and> username tw \<noteq> u \<and>
               (\<exists>l tevs english. newer_item E seen (username tw) l \<and>
                  translateToEnglish (deeplTranslator E) (originalText l) = (tevs, Inr english) \<and>
                  tw = notification l english)) \<and>
            (\<forall>v\<in>set us. \<forall>l. newer_item E seen v l \<longrightarrow>
               (\<exists>tw. r = Some tw \<and> decimal (tweet_id l) \<le> decimal (tweet_id tw)))"
    using r src' mx by blast
  have same: "fst (pollOnce E us seen) = fst (pollOnce E (filter (\<lambda>v. v \<noteq> u) us) seen)"
    "snd (snd (pollOnce E us seen)) = snd (snd (pollOnce E (filter (\<lambda>v. v \<noteq> u) us) seen))"
    using poll_loop_skip_failed[OF assms, of us seen None]
      pollOnce_parts[of E us seen] pollOnce_parts[of E "filter (\<lambda>v. v \<noteq> u) us" seen]
    by simp_all
  have tk: "\<forall>st. getGuildState E = Inr st \<longrightarrow>
            (\<exists>evs. tick E seen = (seen_after E (allUsernames st) seen, evs) \<and>
                   fetches evs = allUsernames st \<and>
                   deliveries evs =
                     (case snd (snd (pollOnce E (filter (\<lambda>v. v \<noteq> u) (allUsernames st)) seen)) of
                        Inr (Some tw) \<Rightarrow> fan_out E st tw
                      | _ \<Rightarrow> []) \<and>
                   (\<forall>Es. run_ticks (E # Es) seen =
                      (fst (run_ticks Es (seen_after E (allUsernames st) seen)),
                       evs @ snd (run_ticks Es (seen_after E (allUsernames st) seen)))))"
  proof (intro allI impI)
    fix st assume gs: "getGuildState E = Inr st"
    let ?us = "allUsernames st"
    let ?evs = "snd (tick E seen)"
    from tick_deliveries[OF gs, of seen] pollOnce_exact[of E ?us seen]
    have t: "tick E seen = (seen_after E ?us seen, ?evs)"
      and f: "fetches ?evs = ?us"
      and d0: "deliveries ?evs =
           (case snd (snd (pollOnce E ?us seen)) of Inr (Some tw) \<Rightarrow> fan_out E st tw | _ \<Rightarrow> [])"
      by simp_all
    have eq: "snd (snd (pollOnce E ?us seen)) = snd (snd (pollOnce E (filter (\<lambda>v. v \<noteq> u) ?us) seen))"
      using poll_loop_skip_failed[OF assms, of ?us seen None]
        pollOnce_parts[of E ?us seen] pollOnce_parts[of E "filter (\<lambda>v. v \<noteq> u) ?us" seen]
      by simp
    have d: "deliveries ?evs =
           (case snd (snd (pollOnce E (filter (\<lambda>v. v \<noteq> u) ?us) seen)) of
              Inr (Some tw) \<Rightarrow> fan_out E st tw | _ \<Rightarrow> [])"
      using d0 unfolding eq .
    have rt: "\<forall>Es. run_ticks (E # Es) seen =
                      (fst (run_ticks Es (seen_after E ?us seen)),
                       ?evs @ snd (run_ticks Es (seen_after E ?us seen)))"
    proof
      fix Es
      have "run_ticks (E # Es) seen =
          (case (seen_after E ?us seen, ?evs) of
             (seen', evs) \<Rightarrow> (case run_ticks Es seen' of (seen'', evs') \<Rightarrow> (seen'', evs @ evs')))"
        using t by (metis run_ticks.simps(2))
      then show "run_ticks (E # Es) seen =
                      (fst (run_ticks Es (seen_after E ?us seen)),
                       ?evs @ snd (run_ticks Es (seen_after E ?us seen)))"
        by (simp add: case_prod_beta)
    qed
    from t f d rt show "\<exists>evs. tick E seen = (seen_after E ?us seen, evs) \<and>
                   fetches evs = ?us \<and>
                   deliveries evs =
                     (case snd (snd (pollOnce E (filter (\<lambda>v. v \<noteq> u) ?us) seen)) of
                        Inr (Some tw) \<Rightarrow> fan_out E st tw
                      | _ \<Rightarrow> []) \<and>
                   (\<forall>Es. run_ticks (E # Es) seen =
                      (fst (run_ticks Es (seen_after E ?us seen)),
                       evs @ snd (run_ticks Es (seen_after E ?us seen))))"
      by blast
  qed
  have nx: "\<forall>E' st'. getGuildState E' = Inr st' \<and> u \<in> set (allUsernames st') \<longrightarrow>
            u \<in> set (fetches (snd (tick E' (fst (tick E seen)))))"
  proof (intro allI impI)
    fix E' :: env and st' :: guild_state
    assume a: "getGuildState E' = Inr st' \<and> u \<in> set (allUsernames st')"
    then have gs': "getGuildState E' = Inr st'" by simp
    have "fetches (snd (tick E' (fst (tick E seen)))) = allUsernames st'"
      using tick_deliveries[OF gs', of "fst (tick E seen)"] by simp
    then show "u \<in> set (fetches (snd (tick E' (fst (tick E seen)))))" using a by simp
  qed
  from st su fe res same tk nx show ?thesis by blast
qed

lemma ex_fan_out:
  "fan_out (ex_world ex_guilds (\<lambda>g. False)) ex_guilds (notification ex_tweet_B (js ''ten'')) =
     [(js ''g1'', notification ex_tweet_B (js ''ten'')), (js ''g2'', notification ex_tweet_B (js ''ten''))]"
  by (simp add: fan_out_def subscribers_def ex_states ex_notification_user)

text \<open>
  The fetch for \<open>C\<close> times out in a tick over \<open>A\<close>, \<open>B\<close> and \<open>C\<close>: the three are fetched,
  \<open>A\<close> moves to 5, the item of \<open>B\<close> is the result with or without \<open>C\<close> in the list and is
  delivered to both tenants that follow \<open>B\<close>, and the next firing fetches \<open>C\<close> again.
\<close>

theorem failed_fetch_is_skipped_witness:
  "fetchLatestTweet (ex_world ex_guilds (\<lambda>g. False)) (js ''C'') = Inl (Thrown ''timeout'') \<and>
   fst (pollOnce (ex_world ex_guilds (\<lambda>g. False)) [js ''A'', js ''B'', js ''C''] ex_seen) (js ''C'') =
     ex_seen (js ''C'') \<and>
   fetches (fst (snd (pollOnce (ex_world ex_guilds (\<lambda>g. False)) [js ''A'', js ''B'', js ''C''] ex_seen))) =
     [js ''A'', js ''B'', js ''C''] \<and>
   snd (snd (pollOnce (ex_world ex_guilds (\<lambda>g. False)) [js ''A'', js ''B'', js ''C''] ex_seen)) =
     Inr (Some (notification ex_tweet_B (js ''ten''))) \<and>
   snd (snd (pollOnce (ex_world ex_guilds (\<lambda>g. False)) [js ''A'', js ''B''] ex_seen)) =
     Inr (Some (notification ex_tweet_B (js ''ten''))) \<and>
   fst (pollOnce (ex_world ex_guilds (\<lambda>g. False)) [js ''A'', js ''B'', js ''C''] ex_seen) (js ''A'') =
     Some (Some (js ''5'')) \<and>
   getGuildState (ex_world ex_guilds (\<lambda>g. False)) = Inr ex_guilds \<and>
   fetches (snd (tick (ex_world ex_guilds (\<lambda>g. False)) ex_seen)) = [js ''A'', js ''B'', js ''C''] \<and>
   deliveries (snd (tick (ex_world ex_guilds (\<lambda>g. False)) ex_seen)) =
     [(js ''g1'', notification ex_tweet_B (js ''ten'')), (js ''g2'', notification ex_tweet_B (js ''ten''))] \<and>
   js ''C'' \<in> set (allUsernames ex_guilds) \<and>
   js ''C'' \<in> set (fetches (snd (tick (ex_world ex_guilds (\<lambda>g. False))
       (fst (tick (ex_world ex_guilds (\<lambda>g. False)) ex_seen)))))"
proof -
  let ?W = "ex_world ex_guilds (\<lambda>g. False)"
  let ?us = "[js ''A'', js ''B'', js ''C'']"
  have f: "fetchLatestTweet ?W (js ''C'') = Inl (Thrown ''timeout'')" by (rule ex_fetch)
  have gs: "getGuildState ?W = Inr ex_guilds" by (rule ex_states)
  note th = failed_fetch_is_skipped[OF f, of ?us ex_seen]
  have flt: "filter (\<lambda>v. v \<noteq> js ''C'') ?us = [js ''A'', js ''B'']" by simp
  have 1: "fst (pollOnce ?W ?us ex_seen) (js ''C'') = ex_seen (js ''C'')"
    using th by blast
  have 2: "fetches (fst (snd (pollOnce ?W ?us ex_seen))) = ?us"
    using th by blast
  have 3: "snd (snd (pollOnce ?W ?us ex_seen)) = Inr (Some (notification ex_tweet_B (js ''ten'')))"
    by (simp add: ex_poll)
  have "snd (snd (pollOnce ?W ?us ex_seen)) =
      snd (snd (pollOnce ?W (filter (\<lambda>v. v \<noteq> js ''C'') ?us) ex_seen))"
    using th by blast
  then have 4: "snd (snd (pollOnce ?W [js ''A'', js ''B''] ex_seen)) =
      Inr (Some (notification ex_tweet_B (js ''ten'')))"
    using 3 unfolding flt by simp
  have 5: "fst (pollOnce ?W ?us ex_seen) (js ''A'') = Some (Some (js ''5''))"
    by (simp add: ex_poll)
  from th gs obtain evs where t: "tick ?W ex_seen = (seen_after ?W (allUsernames ex_guilds) ex_seen, evs)"
    and fe: "fetches evs = allUsernames ex_guilds"
    and d: "deliveries evs =
       (case snd (snd (pollOnce ?W (filter (\<lambda>v. v \<noteq> js ''C'') (allUsernames ex_guilds)) ex_seen)) of
          Inr (Some tw) \<Rightarrow> fan_out ?W ex_guilds tw | _ \<Rightarrow> [])"
    by blast
  have 6: "fetches (snd (tick ?W ex_seen)) = ?us"
    using t fe by (simp add: ex_states)
  have "deliveries evs = fan_out ?W ex_guilds (notification ex_tweet_B (js ''ten''))"
    using d unfolding ex_states flt 4 by simp
  then have 7: "deliveries (snd (tick ?W ex_seen)) =
     [(js ''g1'', notification ex_tweet_B (js ''ten'')), (js ''g2'', notification ex_tweet_B (js ''ten''))]"
    using t by (simp add: ex_fan_out)
  have 8: "js ''C'' \<in> set (allUsernames ex_guilds)" by (simp add: ex_guilds_def)
  have 9: "js ''C'' \<in> set (fetches (snd (tick ?W (fst (tick ?W ex_seen)))))"
    using th gs 8 by blast
  from f 1 2 3 4 5 gs 6 7 8 9 show ?thesis by blast
qed


section \<open>The polling interval\<close>

lemma digit_not_space: "isDigit c \<Longrightarrow> \<not> isWhiteSpace c"
  by (auto simp: isDigit_def isWhiteSpace_def js_def)

lemma numeral_trim: "s \<noteq> [] \<Longrightarrow> list_all isDigit s \<Longrightarrow> trim s = s"
proof (rule trim_id)
  assume s: "s \<noteq> []" and d: "list_all isDigit s"
  show "s \<noteq> []" by (rule s)
  have "hd s \<in> set s" "last s \<in> set s" using s by simp_all
  then show "\<not> isWhiteSpace (hd s)" "\<not> isWhiteSpace (last s)"
    using d by (auto simp: list_all_iff dest: digit_not_space)
qed

lemma digits_unsigned:
  assumes "isDigits s"
  shows "isStrUnsignedDecimalLiteral s" and "s \<noteq> js ''Infinity''"
    and "StrUnsignedDecimalLiteralMV s = of_nat (decimal s)"
    and "hd s \<noteq> of_char CHR ''-''" and "hd s \<noteq> of_char CHR ''+''"
proof -
  from assms have all: "\<forall>x\<in>set s. isDigit x" and ne: "s \<noteq> []"
    by (auto simp: isDigits_def list_all_iff)
  have tw: "takeWhile isDigit s = s" using all by simp
  have dw: "dropWhile isDigit s = []" using all by simp
  show "isStrUnsignedDecimalLiteral s"
    unfolding isStrUnsignedDecimalLiteral_def tw dw
    using ne by (simp add: isOptExponentPart_def)
  have "hd s \<in> set s" using ne by simp
  then have h: "isDigit (hd s)" using all by blast
  then show "hd s \<noteq> of_char CHR ''-''" "hd s \<noteq> of_char CHR ''+''"
    by (auto simp: isDigit_def js_def)
  show "s \<noteq> js ''Infinity''"
    using h by (auto simp: isDigit_def js_def)
  show "StrUnsignedDecimalLiteralMV s = of_nat (decimal s)"
    unfolding StrUnsignedDecimalLiteralMV_def tw dw by simp
qed

lemma digits_are_literal: "isDigits s \<Longrightarrow> isStrNumericLiteral s"
  by (simp add: isStrNumericLiteral_def isStrDecimalLiteral_def digits_unsigned(1))

lemma exactDouble_scaled:
  assumes "k \<le> 1074" and "\<bar>p\<bar> \<le> 2 ^ 53"
  shows "exactDouble (of_int p / 2 ^ k)"
proof -
  have "k \<in> set [0..<1075]" using assms(1) by simp
  moreover have "(of_int p / 2 ^ k) * 2 ^ k = (of_int p :: rat)" by simp
  moreover have "\<bar>of_int p :: rat\<bar> \<le> 2 ^ 53"
  proof -
    have "\<bar>of_int p :: rat\<bar> = of_int \<bar>p\<bar>" by simp
    also have "\<dots> \<le> of_int (2 ^ 53)" using assms(2) by (simp only: of_int_le_iff)
    finally show ?thesis by simp
  qed
  ultimately show ?thesis
    unfolding exactDouble_def list_ex_iff by (intro bexI[of _ k]) simp_all
qed

lemma exactDouble_nat: "n \<le> 2 ^ 53 \<Longrightarrow> exactDouble (of_nat n)"
  using exactDouble_scaled[of 0 "int n"] by simp

lemma exactDouble_tenth: "\<not> exactDouble (1 / 10)"
proof
  assume "exactDouble (1 / 10)"
  then obtain k where k: "of_int \<lfloor>(1 / 10 :: rat) * 2 ^ k\<rfloor> = (1 / 10 :: rat) * 2 ^ k"
    unfolding exactDouble_def list_ex_iff by blast
  define n where "n = \<lfloor>(1 / 10 :: rat) * 2 ^ k\<rfloor>"
  from k have "(of_int n :: rat) = (1 / 10) * 2 ^ k" by (simp only: n_def)
  then have "(of_int n :: rat) * 10 = 2 ^ k" by simp
  then have "(of_int (n * 10) :: rat) = of_int (2 ^ k)" by simp
  then have e: "n * 10 = 2 ^ k" by (simp only: of_int_eq_iff)
  have "n * 10 = 5 * (n * 2)" by simp
  then have d: "(5 :: int) dvd 2 ^ k" using e by (metis dvd_triv_left)
  have c: "coprime (5 :: int) (2 ^ k)"
  proof -
    have "gcd (5 :: int) 2 = gcd 2 (5 mod 2)" by (rule gcd_red_int)
    then have "coprime (5 :: int) 2" by (simp add: coprime_iff_gcd_eq_1)
    then show ?thesis by (rule coprime_power_right_iff[THEN iffD2, OF disjI1])
  qed
  have "is_unit (5 :: int)" by (rule coprime_common_divisor[OF c dvd_refl d])
  then show False by simp
qed

lemma RoundMVResult_number: "RoundMVResult roundMV r \<noteq> NaN"
  by (simp add: RoundMVResult_def split: option.splits)

lemma negate_NaN: "negate n = NaN \<longleftrightarrow> n = NaN"
  by (simp add: negate_def split: jsnum.splits)

lemma literal_number:
  "StrDecimalLiteralValue roundMV (c # r) \<noteq> NaN"
  by (simp add: StrDecimalLiteralValue_def StrUnsignedDecimalLiteralValue_def negate_NaN
      RoundMVResult_number)

lemma literal_nonempty: "isStrNumericLiteral t \<Longrightarrow> t \<noteq> []"
  by (auto simp: isStrNumericLiteral_def isStrDecimalLiteral_def
      isStrUnsignedDecimalLiteral_def isNonDecimalIntegerLiteral_def js_def)

lemma trim_nonempty: "trim s \<noteq> [] \<Longrightarrow> s \<noteq> []"
  by (auto simp: trim_def)

lemma interval_is_Number:
  "s \<noteq> [] \<Longrightarrow> pollingIntervalMs roundMV (Some s) = Number_of_string roundMV s"
  by (simp add: pollingIntervalMs_def configuredIntervalMs_def falsy_def loopIntervalMs_def)

lemma radix_not_decimal: "isNonDecimalIntegerLiteral t \<Longrightarrow> \<not> isStrDecimalLiteral t"
proof -
  assume a: "isNonDecimalIntegerLiteral t"
  then obtain x r where t: "t = of_char CHR ''0'' # x # r" and x: "x \<in> set (js ''bBoOxX'')"
    by (auto simp: isNonDecimalIntegerLiteral_def js_def split: list.splits)
  have nd: "\<not> isDigit x" using x by (auto simp: isDigit_def js_def)
  have d0: "isDigit (of_char CHR ''0'')" by (simp add: isDigit_def js_def)
  have tw: "takeWhile isDigit t = [of_char CHR ''0'']" and dw: "dropWhile isDigit t = x # r"
    unfolding t using nd d0 by simp_all
  have inf: "t \<noteq> js ''Infinity''" unfolding t by (simp add: js_def)
  have e: "\<not> isOptExponentPart (x # r)" "x \<noteq> of_char CHR ''.''"
    using x by (auto simp: isOptExponentPart_def js_def)
  have "\<not> isStrUnsignedDecimalLiteral t"
    unfolding isStrUnsignedDecimalLiteral_def tw dw using inf e by simp
  moreover have "of_char CHR ''0'' \<notin> set (js ''+-'')" by (simp add: js_def)
  ultimately show ?thesis unfolding isStrDecimalLiteral_def t[symmetric] 
    by (simp add: t)
qed

lemma unsigned_head:
  assumes "isStrUnsignedDecimalLiteral t"
  shows "\<exists>c r. t = c # r \<and> c \<noteq> of_char CHR ''-'' \<and> c \<noteq> of_char CHR ''+''"
proof (cases "t = js ''Infinity''")
  case True
  then show ?thesis by (simp add: js_def)
next
  case False
  show ?thesis
  proof (cases "takeWhile isDigit t = []")
    case True
    then show ?thesis
      using assms False
      by (auto simp: isStrUnsignedDecimalLiteral_def split: list.splits)
  next
    case False
    then obtain c r where t: "t = c # r" by (cases t) auto
    with False have "isDigit c" by (auto split: if_splits)
    then show ?thesis using t by (auto simp: isDigit_def js_def)
  qed
qed

lemma Number_unsigned:
  assumes "isStrUnsignedDecimalLiteral (trim s)"
  shows "Number_of_string roundMV s = StrUnsignedDecimalLiteralValue roundMV (trim s)"
proof -
  from unsigned_head[OF assms] obtain c r where t: "trim s = c # r"
    and c: "c \<noteq> of_char CHR ''-''" "c \<noteq> of_char CHR ''+''" by blast
  have "isStrDecimalLiteral (trim s)" using assms by (simp add: isStrDecimalLiteral_def)
  then have "Number_of_string roundMV s = StrDecimalLiteralValue roundMV (trim s)"
    using t by (simp add: Number_of_string_def)
  also have "\<dots> = StrUnsignedDecimalLiteralValue roundMV (trim s)"
    unfolding t using c by (simp add: StrDecimalLiteralValue_def)
  finally show ?thesis .
qed

lemma Number_signed:
  assumes "trim s = c # u" and "c \<in> set (js ''+-'')" and "isStrUnsignedDecimalLiteral u"
  shows "Number_of_string roundMV s =
           (if c = of_char CHR ''-'' then negate (StrUnsignedDecimalLiteralValue roundMV u)
            else StrUnsignedDecimalLiteralValue roundMV u)"
proof -
  have "isStrDecimalLiteral (trim s)"
    unfolding assms(1) using assms(2,3) by (simp add: isStrDecimalLiteral_def)
  then have "Number_of_string roundMV s = StrDecimalLiteralValue roundMV (c # u)"
    using assms(1) by (simp add: Number_of_string_def)
  then show ?thesis
    using assms(2) by (auto simp: StrDecimalLiteralValue_def js_def)
qed

lemma Number_radix:
  assumes "isNonDecimalIntegerLiteral (trim s)"
  shows "Number_of_string roundMV s =
           RoundMVResult roundMV (of_nat (NonDecimalIntegerLiteralMV (trim s)))"
proof -
  have "trim s \<noteq> []" using assms by (auto simp: isNonDecimalIntegerLiteral_def)
  then show ?thesis
    using assms radix_not_decimal[OF assms] by (simp add: Number_of_string_def)
qed

lemma Number_NaN:
  "Number_of_string roundMV s = NaN \<longleftrightarrow> trim s \<noteq> [] \<and> \<not> isStrNumericLiteral (trim s)"
proof (cases "trim s")
  case Nil
  then show ?thesis by (simp add: Number_of_string_def)
next
  case (Cons c r)
  then show ?thesis
    using literal_number[of roundMV c r] RoundMVResult_number[of roundMV]
    by (simp add: Number_of_string_def isStrNumericLiteral_def Let_def)
qed

lemma infinity_literals:
  "isStrUnsignedDecimalLiteral (js ''Infinity'')"
  "js ''+Infinity'' = of_char CHR ''+'' # js ''Infinity''"
  "js ''-Infinity'' = of_char CHR ''-'' # js ''Infinity''"
  "of_char CHR ''+'' \<in> set (js ''+-'')" "of_char CHR ''-'' \<in> set (js ''+-'')"
  "(of_char CHR ''+'' :: nat) \<noteq> of_char CHR ''-''"
  by (simp_all add: isStrUnsignedDecimalLiteral_def js_def)

text \<open>
  Claim C8, amended. The interval that the loop runs with is 60000 when
  \<^verbatim>\<open>RSS_INTERVAL_MS\<close> is unset or empty. When the variable is set and not empty it is
  \<^verbatim>\<open>Number\<close> of its value. That is 0 for white space; \<open>NaN\<close>, not 60000, exactly when the
  value, trimmed, is not empty and is no numeric literal; and the value of the literal
  otherwise: the number of milliseconds that a decimal numeral up to \<open>2 ^ 53\<close> denotes;
  the mathematical value of a decimal literal, with its fraction and exponent, when a
  double holds it exactly, with the sign of the literal; the value of a binary, octal or
  hexadecimal literal up to \<open>2 ^ 53\<close>; the infinities; and the rounding of the
  mathematical value when no double holds it exactly.
\<close>

theorem pollingInterval_default:
  "pollingIntervalMs roundMV None = Num 60000 \<and>
   pollingIntervalMs roundMV (Some []) = Num 60000 \<and>
   (s \<noteq> [] \<longrightarrow> pollingIntervalMs roundMV (Some s) = Number_of_string roundMV s) \<and>
   (isDigits s \<and> decimal s \<le> 2 ^ 53 \<longrightarrow>
      pollingIntervalMs roundMV (Some s) = Num (of_nat (decimal s))) \<and>
   (s \<noteq> [] \<and> trim s = [] \<longrightarrow> pollingIntervalMs roundMV (Some s) = Num 0) \<and>
   (trim s \<noteq> [] \<and> \<not> isStrNumericLiteral (trim s) \<longrightarrow>
      pollingIntervalMs roundMV (Some s) = NaN) \<and>
   (s \<noteq> [] \<longrightarrow>
      (pollingIntervalMs roundMV (Some s) = NaN \<longleftrightarrow>
         trim s \<noteq> [] \<and> \<not> isStrNumericLiteral (trim s))) \<and>
   (isStrUnsignedDecimalLiteral (trim s) \<and> trim s \<noteq> js ''Infinity'' \<longrightarrow>
      pollingIntervalMs roundMV (Some s) =
        (if exactDouble (StrUnsignedDecimalLiteralMV (trim s))
         then Num (StrUnsignedDecimalLiteralMV (trim s))
         else (case roundMV (StrUnsignedDecimalLiteralMV (trim s)) of
                 None \<Rightarrow> PosInfinity | Some d \<Rightarrow> Num d))) \<and>
   (\<forall>u. trim s = of_char CHR ''+'' # u \<and> isStrUnsignedDecimalLiteral u \<and> u \<noteq> js ''Infinity'' \<and>
        exactDouble (StrUnsignedDecimalLiteralMV u) \<longrightarrow>
      pollingIntervalMs roundMV (Some s) = Num (StrUnsignedDecimalLiteralMV u)) \<and>
   (\<forall>u. trim s = of_char CHR ''-'' # u \<and> isStrUnsignedDecimalLiteral u \<and> u \<noteq> js ''Infinity'' \<and>
        exactDouble (StrUnsignedDecimalLiteralMV u) \<longrightarrow>
      pollingIntervalMs roundMV (Some s) =
        (if StrUnsignedDecimalLiteralMV u = 0 then NegZero
         else Num (- StrUnsignedDecimalLiteralMV u))) \<and>
   (isNonDecimalIntegerLiteral (trim s) \<and> NonDecimalIntegerLiteralMV (trim s) \<le> 2 ^ 53 \<longrightarrow>
      pollingIntervalMs roundMV (Some s) = Num (of_nat (NonDecimalIntegerLiteralMV (trim s)))) \<and>
   (trim s \<in> {js ''Infinity'', js ''+Infinity''} \<longrightarrow>
      pollingIntervalMs roundMV (Some s) = PosInfinity) \<and>
   (trim s = js ''-Infinity'' \<longrightarrow> pollingIntervalMs roundMV (Some s) = NegInfinity)"
proof -
  let ?I = "pollingIntervalMs roundMV (Some s)"
  have c1: "pollingIntervalMs roundMV None = Num 60000"
    by (simp add: pollingIntervalMs_def configuredIntervalMs_def falsy_def loopIntervalMs_def)
  have c2: "pollingIntervalMs roundMV (Some []) = Num 60000"
    by (simp add: pollingIntervalMs_def configuredIntervalMs_def falsy_def loopIntervalMs_def)
  have c3: "s \<noteq> [] \<longrightarrow> ?I = Number_of_string roundMV s"
    by (simp add: interval_is_Number)
  have N: "?I = Number_of_string roundMV s" if "trim s \<noteq> []"
    using that trim_nonempty[of s] by (simp add: interval_is_Number)
  have c4: "isDigits s \<and> decimal s \<le> 2 ^ 53 \<longrightarrow> ?I = Num (of_nat (decimal s))"
  proof
    assume a: "isDigits s \<and> decimal s \<le> 2 ^ 53"
    then have d: "isDigits s" and le: "decimal s \<le> 2 ^ 53" by simp_all
    from d have t: "trim s = s" and ne: "s \<noteq> []" by (simp_all add: numeral_trim isDigits_def)
    have "?I = Number_of_string roundMV s" using ne by (simp add: interval_is_Number)
    also have "\<dots> = StrUnsignedDecimalLiteralValue roundMV s"
      using Number_unsigned[of s roundMV] digits_unsigned(1)[OF d] by (simp add: t)
    also have "\<dots> = Num (of_nat (decimal s))"
      using digits_unsigned(2,3)[OF d] exactDouble_nat[OF le]
      by (simp add: StrUnsignedDecimalLiteralValue_def RoundMVResult_def)
    finally show "?I = Num (of_nat (decimal s))" .
  qed
  have c5: "s \<noteq> [] \<and> trim s = [] \<longrightarrow> ?I = Num 0"
    by (simp add: interval_is_Number Number_of_string_def)
  have c7: "s \<noteq> [] \<longrightarrow> (?I = NaN \<longleftrightarrow> trim s \<noteq> [] \<and> \<not> isStrNumericLiteral (trim s))"
    by (simp add: interval_is_Number Number_NaN)
  have c6: "trim s \<noteq> [] \<and> \<not> isStrNumericLiteral (trim s) \<longrightarrow> ?I = NaN"
    using c7 trim_nonempty[of s] by blast
  have c8: "isStrUnsignedDecimalLiteral (trim s) \<and> trim s \<noteq> js ''Infinity'' \<longrightarrow>
      ?I = (if exactDouble (StrUnsignedDecimalLiteralMV (trim s))
         then Num (StrUnsignedDecimalLiteralMV (trim s))
         else (case roundMV (StrUnsignedDecimalLiteralMV (trim s)) of
                 None \<Rightarrow> PosInfinity | Some d \<Rightarrow> Num d))"
  proof
    assume a: "isStrUnsignedDecimalLiteral (trim s) \<and> trim s \<noteq> js ''Infinity''"
    then have "trim s \<noteq> []" using unsigned_head[of "trim s"] by auto
    then have "?I = Number_of_string roundMV s" by (rule N)
    also have "\<dots> = StrUnsignedDecimalLiteralValue roundMV (trim s)"
      using a by (simp add: Number_unsigned)
    finally show "?I = (if exactDouble (StrUnsignedDecimalLiteralMV (trim s))
         then Num (StrUnsignedDecimalLiteralMV (trim s))
         else (case roundMV (StrUnsignedDecimalLiteralMV (trim s)) of
                 None \<Rightarrow> PosInfinity | Some d \<Rightarrow> Num d))"
      using a by (simp add: StrUnsignedDecimalLiteralValue_def RoundMVResult_def)
  qed
  have c9: "\<forall>u. trim s = of_char CHR ''+'' # u \<and> isStrUnsignedDecimalLiteral u \<and> u \<noteq> js ''Infinity'' \<and>
        exactDouble (StrUnsignedDecimalLiteralMV u) \<longrightarrow>
      ?I = Num (StrUnsignedDecimalLiteralMV u)"
  proof (intro allI impI)
    fix u
    assume a: "trim s = of_char CHR ''+'' # u \<and> isStrUnsignedDecimalLiteral u \<and> u \<noteq> js ''Infinity'' \<and>
        exactDouble (StrUnsignedDecimalLiteralMV u)"
    then have "trim s \<noteq> []" by simp
    then have "?I = Number_of_string roundMV s" by (rule N)
    also have "\<dots> = StrUnsignedDecimalLiteralValue roundMV u"
      using Number_signed[of s "of_char CHR ''+''" u roundMV] a infinity_literals(4,6) by simp
    finally show "?I = Num (StrUnsignedDecimalLiteralMV u)"
      using a by (simp add: StrUnsignedDecimalLiteralValue_def RoundMVResult_def)
  qed
  have c10: "\<forall>u. trim s = of_char CHR ''-'' # u \<and> isStrUnsignedDecimalLiteral u \<and> u \<noteq> js ''Infinity'' \<and>
        exactDouble (StrUnsignedDecimalLiteralMV u) \<longrightarrow>
      ?I = (if StrUnsignedDecimalLiteralMV u = 0 then NegZero
         else Num (- StrUnsignedDecimalLiteralMV u))"
  proof (intro allI impI)
    fix u
    assume a: "trim s = of_char CHR ''-'' # u \<and> isStrUnsignedDecimalLiteral u \<and> u \<noteq> js ''Infinity'' \<and>
        exactDouble (StrUnsignedDecimalLiteralMV u)"
    then have "trim s \<noteq> []" by simp
    then have "?I = Number_of_string roundMV s" by (rule N)
    also have "\<dots> = negate (StrUnsignedDecimalLiteralValue roundMV u)"
      using Number_signed[of s "of_char CHR ''-''" u roundMV] a infinity_literals(5) by simp
    finally show "?I = (if StrUnsignedDecimalLiteralMV u = 0 then NegZero
         else Num (- StrUnsignedDecimalLiteralMV u))"
      using a by (simp add: StrUnsignedDecimalLiteralValue_def RoundMVResult_def negate_def)
  qed
  have c11: "isNonDecimalIntegerLiteral (trim s) \<and> NonDecimalIntegerLiteralMV (trim s) \<le> 2 ^ 53 \<longrightarrow>
      ?I = Num (of_nat (NonDecimalIntegerLiteralMV (trim s)))"
  proof
    assume a: "isNonDecimalIntegerLiteral (trim s) \<and> NonDecimalIntegerLiteralMV (trim s) \<le> 2 ^ 53"
    then have "trim s \<noteq> []" by (auto simp: isNonDecimalIntegerLiteral_def)
    then have "?I = Number_of_string roundMV s" by (rule N)
    also have "\<dots> = RoundMVResult roundMV (of_nat (NonDecimalIntegerLiteralMV (trim s)))"
      using a by (simp add: Number_radix)
    finally show "?I = Num (of_nat (NonDecimalIntegerLiteralMV (trim s)))"
      using a exactDouble_nat[of "NonDecimalIntegerLiteralMV (trim s)"]
      by (simp add: RoundMVResult_def)
  qed
  have c12: "trim s \<in> {js ''Infinity'', js ''+Infinity''} \<longrightarrow> ?I = PosInfinity"
  proof
    assume a: "trim s \<in> {js ''Infinity'', js ''+Infinity''}"
    then have ne: "trim s \<noteq> []" by auto
    from a consider "trim s = js ''Infinity''" | "trim s = js ''+Infinity''" by blast
    then have "Number_of_string roundMV s = PosInfinity"
    proof cases
      case 1
      then show ?thesis
        using Number_unsigned[of s roundMV] infinity_literals(1)
        by (simp add: StrUnsignedDecimalLiteralValue_def)
    next
      case 2
      then have "trim s = of_char CHR ''+'' # js ''Infinity''" by (simp only: infinity_literals(2))
      then show ?thesis
        using Number_signed[of s "of_char CHR ''+''" "js ''Infinity''" roundMV] infinity_literals(1,4,6)
        by (simp add: StrUnsignedDecimalLiteralValue_def)
    qed
    then show "?I = PosInfinity" using N[OF ne] by simp
  qed
  have c13: "trim s = js ''-Infinity'' \<longrightarrow> ?I = NegInfinity"
  proof
    assume a: "trim s = js ''-Infinity''"
    then have ne: "trim s \<noteq> []" by simp
    from a have "trim s = of_char CHR ''-'' # js ''Infinity''" by (simp only: infinity_literals(3))
    then have "Number_of_string roundMV s = NegInfinity"
      using Number_signed[of s "of_char CHR ''-''" "js ''Infinity''" roundMV] infinity_literals(1,5)
      by (simp add: StrUnsignedDecimalLiteralValue_def negate_def)
    then show "?I = NegInfinity" using N[OF ne] by simp
  qed
  show ?thesis
    by (intro conjI) (rule c1 c2 c3 c4 c5 c6 c7 c8 c9 c10 c11 c12 c13)+
qed


lemma ex_interval_trims:
  "trim (js ''30000'') = js ''30000''" "trim (js '' 1e3 '') = js ''1e3''"
  "trim (js ''12.5'') = js ''12.5''" "trim (js ''+30000'') = js ''+30000''"
  "trim (js ''-5'') = js ''-5''" "trim (js ''0x10'') = js ''0x10''"
  "trim (js ''0.1'') = js ''0.1''" "trim (js ''abc'') = js ''abc''"
  "trim (js ''60s'') = js ''60s''"
  by (simp_all add: trim_def isWhiteSpace_def js_def)

lemma ex_interval_numeral:
  "isDigits (js ''30000'')" "decimal (js ''30000'') = 30000"
  by (simp_all add: isDigits_def isDigit_def decimal_def digitValue_def js_def)

lemma ex_interval_literals:
  "isStrUnsignedDecimalLiteral (js ''1e3'')" "js ''1e3'' \<noteq> js ''Infinity''"
  "isStrUnsignedDecimalLiteral (js ''12.5'')" "js ''12.5'' \<noteq> js ''Infinity''"
  "isStrUnsignedDecimalLiteral (js ''0.1'')" "js ''0.1'' \<noteq> js ''Infinity''"
  "isStrUnsignedDecimalLiteral (js ''30000'')" "js ''30000'' \<noteq> js ''Infinity''"
  "isStrUnsignedDecimalLiteral (js ''5'')" "js ''5'' \<noteq> js ''Infinity''"
  "js ''+30000'' = of_char CHR ''+'' # js ''30000''" "js ''-5'' = of_char CHR ''-'' # js ''5''"
  "isNonDecimalIntegerLiteral (js ''0x10'')"
  "\<not> isStrNumericLiteral (js ''abc'')" "\<not> isStrNumericLiteral (js ''60s'')"
  by (simp_all add: isStrNumericLiteral_def isStrDecimalLiteral_def
      isStrUnsignedDecimalLiteral_def isNonDecimalIntegerLiteral_def isOptExponentPart_def
      isSignedInteger_def isDigits_def isDigit_def js_def)

lemma ex_interval_values:
  "StrUnsignedDecimalLiteralMV (js ''1e3'') = 1000"
  "StrUnsignedDecimalLiteralMV (js ''12.5'') = 25 / 2"
  "StrUnsignedDecimalLiteralMV (js ''0.1'') = 1 / 10"
  "StrUnsignedDecimalLiteralMV (js ''30000'') = 30000"
  "StrUnsignedDecimalLiteralMV (js ''5'') = 5"
  "NonDecimalIntegerLiteralMV (js ''0x10'') = 16"
  by (simp_all add: StrUnsignedDecimalLiteralMV_def NonDecimalIntegerLiteralMV_def
      ExponentPartMV_def SignedIntegerMV_def pow10_def radixDigitValue_def decimal_def
      digitValue_def isDigit_def Let_def js_def)

lemma ex_interval_exact:
  "exactDouble 1000" "exactDouble (25 / 2)" "exactDouble 30000" "exactDouble 5"
  using exactDouble_scaled[of 0 1000] exactDouble_scaled[of 1 25]
    exactDouble_scaled[of 0 30000] exactDouble_scaled[of 0 5]
  by simp_all

text \<open>
  The variable set to \<open>30000\<close>, to a padded \<open>1e3\<close>, to \<open>12.5\<close>, to \<open>+30000\<close>, to \<open>-5\<close>,
  to \<open>0x10\<close> and to \<open>0.1\<close>, which is rounded.
\<close>

theorem pollingInterval_default_witness:
  "isDigits (js ''30000'') \<and> decimal (js ''30000'') \<le> 2 ^ 53 \<and>
   pollingIntervalMs ex_roundMV (Some (js ''30000'')) = Num 30000 \<and>
   isStrUnsignedDecimalLiteral (trim (js '' 1e3 '')) \<and>
   pollingIntervalMs ex_roundMV (Some (js '' 1e3 '')) = Num 1000 \<and>
   isStrUnsignedDecimalLiteral (trim (js ''12.5'')) \<and>
   pollingIntervalMs ex_roundMV (Some (js ''12.5'')) = Num (25 / 2) \<and>
   pollingIntervalMs ex_roundMV (Some (js ''+30000'')) = Num 30000 \<and>
   pollingIntervalMs ex_roundMV (Some (js ''-5'')) = Num (- 5) \<and>
   isNonDecimalIntegerLiteral (trim (js ''0x10'')) \<and>
   pollingIntervalMs ex_roundMV (Some (js ''0x10'')) = Num 16 \<and>
   \<not> exactDouble (StrUnsignedDecimalLiteralMV (trim (js ''0.1''))) \<and>
   pollingIntervalMs ex_roundMV (Some (js ''0.1'')) =
     Num (3602879701896397 / 36028797018963968)"
proof -
  have le: "decimal (js ''30000'') \<le> 2 ^ 53" by (simp add: ex_interval_numeral)
  from pollingInterval_default[of ex_roundMV "js ''30000''"] ex_interval_numeral(1) le
  have "pollingIntervalMs ex_roundMV (Some (js ''30000'')) =
      Num (of_nat (decimal (js ''30000'')))" by blast
  then have 1: "pollingIntervalMs ex_roundMV (Some (js ''30000'')) = Num 30000"
    by (simp add: ex_interval_numeral)
  have l2: "isStrUnsignedDecimalLiteral (trim (js '' 1e3 '')) \<and> trim (js '' 1e3 '') \<noteq> js ''Infinity''"
    by (simp add: ex_interval_trims ex_interval_literals)
  from pollingInterval_default[of ex_roundMV "js '' 1e3 ''"] l2
  have "pollingIntervalMs ex_roundMV (Some (js '' 1e3 '')) =
        (if exactDouble (StrUnsignedDecimalLiteralMV (trim (js '' 1e3 '')))
         then Num (StrUnsignedDecimalLiteralMV (trim (js '' 1e3 '')))
         else (case ex_roundMV (StrUnsignedDecimalLiteralMV (trim (js '' 1e3 ''))) of
                 None \<Rightarrow> PosInfinity | Some d \<Rightarrow> Num d))"
    by blast
  then have 2: "pollingIntervalMs ex_roundMV (Some (js '' 1e3 '')) = Num 1000"
    by (simp add: ex_interval_trims ex_interval_values ex_interval_exact)
  have l3: "isStrUnsignedDecimalLiteral (trim (js ''12.5'')) \<and> trim (js ''12.5'') \<noteq> js ''Infinity''"
    by (simp add: ex_interval_trims ex_interval_literals)
  from pollingInterval_default[of ex_roundMV "js ''12.5''"] l3
  have "pollingIntervalMs ex_roundMV (Some (js ''12.5'')) =
        (if exactDouble (StrUnsignedDecimalLiteralMV (trim (js ''12.5'')))
         then Num (StrUnsignedDecimalLiteralMV (trim (js ''12.5'')))
         else (case ex_roundMV (StrUnsignedDecimalLiteralMV (trim (js ''12.5''))) of
                 None \<Rightarrow> PosInfinity | Some d \<Rightarrow> Num d))"
    by blast
  then have 3: "pollingIntervalMs ex_roundMV (Some (js ''12.5'')) = Num (25 / 2)"
    by (simp add: ex_interval_trims ex_interval_values ex_interval_exact)
  have l4: "trim (js ''+30000'') = of_char CHR ''+'' # js ''30000'' \<and>
      isStrUnsignedDecimalLiteral (js ''30000'') \<and> js ''30000'' \<noteq> js ''Infinity'' \<and>
      exactDouble (StrUnsignedDecimalLiteralMV (js ''30000''))"
  proof -
    have "trim (js ''+30000'') = of_char CHR ''+'' # js ''30000''"
      unfolding ex_interval_trims(4) by (rule ex_interval_literals(11))
    then show ?thesis
      by (simp add: ex_interval_literals(7,8) ex_interval_values ex_interval_exact)
  qed
  from pollingInterval_default[of ex_roundMV "js ''+30000''"] l4
  have "pollingIntervalMs ex_roundMV (Some (js ''+30000'')) =
      Num (StrUnsignedDecimalLiteralMV (js ''30000''))"
    by blast
  then have 4: "pollingIntervalMs ex_roundMV (Some (js ''+30000'')) = Num 30000"
    by (simp add: ex_interval_values)
  have l5: "trim (js ''-5'') = of_char CHR ''-'' # js ''5'' \<and>
      isStrUnsignedDecimalLiteral (js ''5'') \<and> js ''5'' \<noteq> js ''Infinity'' \<and>
      exactDouble (StrUnsignedDecimalLiteralMV (js ''5''))"
  proof -
    have "trim (js ''-5'') = of_char CHR ''-'' # js ''5''"
      unfolding ex_interval_trims(5) by (rule ex_interval_literals(12))
    then show ?thesis
      by (simp add: ex_interval_literals(9,10) ex_interval_values ex_interval_exact)
  qed
  from pollingInterval_default[of ex_roundMV "js ''-5''"] l5
  have "pollingIntervalMs ex_roundMV (Some (js ''-5'')) =
      (if StrUnsignedDecimalLiteralMV (js ''5'') = 0 then NegZero
       else Num (- StrUnsignedDecimalLiteralMV (js ''5'')))"
    by blast
  then have 5: "pollingIntervalMs ex_roundMV (Some (js ''-5'')) = Num (- 5)"
    by (simp add: ex_interval_values)
  have l6: "isNonDecimalIntegerLiteral (trim (js ''0x10'')) \<and>
      NonDecimalIntegerLiteralMV (trim (js ''0x10'')) \<le> 2 ^ 53"
    by (simp add: ex_interval_trims ex_interval_literals ex_interval_values)
  from pollingInterval_default[of ex_roundMV "js ''0x10''"] l6
  have "pollingIntervalMs ex_roundMV (Some (js ''0x10'')) =
      Num (of_nat (NonDecimalIntegerLiteralMV (trim (js ''0x10''))))"
    by blast
  then have 6: "pollingIntervalMs ex_roundMV (Some (js ''0x10'')) = Num 16"
    by (simp add: ex_interval_trims ex_interval_values)
  have l7: "isStrUnsignedDecimalLiteral (trim (js ''0.1'')) \<and> trim (js ''0.1'') \<noteq> js ''Infinity''"
    by (simp add: ex_interval_trims ex_interval_literals)
  have n7: "\<not> exactDouble (StrUnsignedDecimalLiteralMV (trim (js ''0.1'')))"
    using exactDouble_tenth by (simp add: ex_interval_trims ex_interval_values)
  from pollingInterval_default[of ex_roundMV "js ''0.1''"] l7
  have "pollingIntervalMs ex_roundMV (Some (js ''0.1'')) =
        (if exactDouble (StrUnsignedDecimalLiteralMV (trim (js ''0.1'')))
         then Num (StrUnsignedDecimalLiteralMV (trim (js ''0.1'')))
         else (case ex_roundMV (StrUnsignedDecimalLiteralMV (trim (js ''0.1''))) of
                 None \<Rightarrow> PosInfinity | Some d \<Rightarrow> Num d))"
    by blast
  then have 7: "pollingIntervalMs ex_roundMV (Some (js ''0.1'')) =
     Num (3602879701896397 / 36028797018963968)"
    using n7 by (simp add: ex_interval_trims ex_interval_values ex_roundMV_def)
  show ?thesis
    using ex_interval_numeral(1) le 1 l2 2 l3 3 4 5 l6 6 n7 7 by blast
qed

text \<open>
  The variable set to \<open>abc\<close> and to \<open>60s\<close>, which are no numeric literals: the interval
  is \<open>NaN\<close>, not 60000, whatever the rounding is.
\<close>

theorem pollingInterval_nan_counterexample:
  "\<not> isStrNumericLiteral (js ''abc'') \<and>
   Number_of_string ex_roundMV (js ''abc'') = NaN \<and>
   pollingIntervalMs ex_roundMV (Some (js ''abc'')) = NaN \<and>
   pollingIntervalMs ex_roundMV (Some (js ''60s'')) = NaN \<and>
   NaN \<noteq> Num 60000"
  using ex_interval_literals(14,15)
  by (simp add: interval_is_Number Number_NaN ex_interval_trims)

end
